theory Spec2Isabelle
  imports Complex_Main "HOL-Library.AList" "HOL-Library.Sublist"
begin

section \<open>Values exchanged with the language model\<close>

text \<open>
  The intake agent of \<^verbatim>\<open>pipecat-agent/bot.py\<close> receives its data as parsed JSON: the
  arguments of a tool call, the messages of the conversation context, the answer of the
  extraction provider. Python checks none of these against the declared schema, so the
  model keeps them as JSON values and writes out what each Python operation does on each
  kind of value.

  A character is a code point below 256. A Python \<^verbatim>\<open>dict\<close> is an association list in
  insertion order; the first binding of a key is the one that counts, and a well-formed
  dict has distinct keys.
\<close>

datatype pyfloat = Finite rat | PosInf | NegInf | NaN

datatype json =
    JNull
  | JBool bool
  | JInt int
  | JFloat pyfloat
  | JStr string
  | JArr "json list"
  | JObj "(string \<times> json) list"

type_synonym dict = "(string \<times> json) list"

datatype py_exn = TypeError | AttributeError | JSONDecodeError | RequestError

text \<open>Python's truth value of an object (\<^verbatim>\<open>if value:\<close>).\<close>

fun truthy :: "json \<Rightarrow> bool" where
  "truthy JNull = False"
| "truthy (JBool b) = b"
| "truthy (JInt i) = (i \<noteq> 0)"
| "truthy (JFloat f) = (f \<noteq> Finite 0)"
| "truthy (JStr s) = (s \<noteq> [])"
| "truthy (JArr xs) = (xs \<noteq> [])"
| "truthy (JObj m) = (m \<noteq> [])"

text \<open>\<^verbatim>\<open>d.get(k, default)\<close> on a value known to be a dict (the arguments of a tool call,
  a context message).\<close>

definition dict_get :: "dict \<Rightarrow> string \<Rightarrow> json \<Rightarrow> json" where
  "dict_get d k dflt = (case map_of d k of None \<Rightarrow> dflt | Some v \<Rightarrow> v)"

text \<open>\<^verbatim>\<open>x.get(k, default)\<close> on any value: only a dict has the method.\<close>

fun py_get :: "json \<Rightarrow> string \<Rightarrow> json \<Rightarrow> py_exn + json" where
  "py_get (JObj m) k dflt = Inr (dict_get m k dflt)"
| "py_get _ k dflt = Inl AttributeError"

text \<open>\<^verbatim>\<open>k in x\<close> for a string \<^verbatim>\<open>k\<close>: key membership in a dict, substring of a string,
  element of a list; the other values are not containers.\<close>

fun py_contains :: "json \<Rightarrow> string \<Rightarrow> py_exn + bool" where
  "py_contains (JObj m) k = Inr (k \<in> fst ` set m)"
| "py_contains (JStr s) k = Inr (sublist k s)"
| "py_contains (JArr xs) k = Inr (JStr k \<in> set xs)"
| "py_contains _ k = Inl TypeError"

text \<open>\<^verbatim>\<open>x[k] = v\<close> for a string \<^verbatim>\<open>k\<close>: only a dict accepts it.\<close>

fun py_setitem :: "json \<Rightarrow> string \<Rightarrow> json \<Rightarrow> py_exn + json" where
  "py_setitem (JObj m) k v = Inr (JObj (AList.update k v m))"
| "py_setitem _ k v = Inl TypeError"

text \<open>An f-string prints a string as it is; how it prints any other value is Python's
  \<^verbatim>\<open>str\<close>, taken as the parameter \<open>fmt\<close>.\<close>

fun py_str :: "(json \<Rightarrow> string) \<Rightarrow> json \<Rightarrow> string" where
  "py_str fmt (JStr s) = s"
| "py_str fmt v = fmt v"

text \<open>Decimal digits of a length, as an f-string prints it.\<close>

fun show_nat :: "nat \<Rightarrow> string" where
  "show_nat n =
     (if n < 10 then [char_of (48 + n)]
      else show_nat (n div 10) @ [char_of (48 + n mod 10)])"

text \<open>\<^verbatim>\<open>sep.join(xs)\<close>.\<close>

fun join :: "string \<Rightarrow> string list \<Rightarrow> string" where
  "join sep [] = []"
| "join sep [x] = x"
| "join sep (x # y # ys) = x @ sep @ join sep (y # ys)"

section \<open>Field schema registry\<close>

record field_def =
  key :: string
  label :: string
  required :: bool

definition mk_field :: "string \<Rightarrow> string \<Rightarrow> bool \<Rightarrow> field_def" where
  "mk_field k l r = \<lparr>key = k, label = l, required = r\<rparr>"

definition DESIGN_FIELDS :: "field_def list" where
  "DESIGN_FIELDS =
    [mk_field ''buildingType'' ''Building Type'' True,
     mk_field ''buildingSize'' ''Building Size (sq ft)'' True,
     mk_field ''location'' ''Location'' True,
     mk_field ''projectGoals'' ''Project Goals'' True,
     mk_field ''timeline'' ''Timeline'' True,
     mk_field ''budget'' ''Budget Range'' False,
     mk_field ''existingSystem'' ''Existing System'' False,
     mk_field ''specialRequirements'' ''Special Requirements'' False]"

definition SERVICE_FIELDS :: "field_def list" where
  "SERVICE_FIELDS =
    [mk_field ''systemType'' ''System Type'' True,
     mk_field ''systemAge'' ''System Age'' True,
     mk_field ''symptoms'' ''Symptoms/Issue'' True,
     mk_field ''urgency'' ''Urgency Level'' True,
     mk_field ''location'' ''Location'' True,
     mk_field ''siteConstraints'' ''Site Constraints'' False,
     mk_field ''makeModel'' ''Make and Model'' False]"

definition QUOTE_FIELDS :: "field_def list" where
  "QUOTE_FIELDS =
    [mk_field ''projectScope'' ''Project Scope'' True,
     mk_field ''buildingType'' ''Building Type'' True,
     mk_field ''buildingSize'' ''Building Size (sq ft)'' True,
     mk_field ''location'' ''Location'' True,
     mk_field ''existingSystem'' ''Existing System'' False,
     mk_field ''timeline'' ''Timeline'' False,
     mk_field ''budget'' ''Budget Range'' False]"

definition CALL_TYPE_FIELDS :: "(string \<times> field_def list) list" where
  "CALL_TYPE_FIELDS =
    [(''design'', DESIGN_FIELDS), (''service'', SERVICE_FIELDS), (''quote'', QUOTE_FIELDS)]"

text \<open>\<^verbatim>\<open>CALL_TYPE_FIELDS.get(x, [])\<close>: a list or a dict cannot be hashed; every other
  value that is not one of the three keys gets the default.\<close>

fun registry_get :: "json \<Rightarrow> py_exn + field_def list" where
  "registry_get (JStr s) = Inr (case map_of CALL_TYPE_FIELDS s of None \<Rightarrow> [] | Some fs \<Rightarrow> fs)"
| "registry_get (JArr xs) = Inl TypeError"
| "registry_get (JObj m) = Inl TypeError"
| "registry_get _ = Inr []"

section \<open>Call state\<close>

record turn =
  role :: string
  content :: json
  turnNumber :: int
  extractedData :: "string option"

record call_state =
  call_sid :: string
  caller_number :: string
  direction :: string
  call_type :: json
  caller_name :: json
  caller_email :: json
  caller_address :: json
  intake_data :: json
  summary :: json
  turns :: "turn list"
  is_complete :: bool
  turn_counter :: int
  saved :: bool

text \<open>\<^verbatim>\<open>CallState.__init__\<close>; \<^verbatim>\<open>None\<close> is \<open>JNull\<close>.\<close>

definition CallState :: "string \<Rightarrow> string \<Rightarrow> string \<Rightarrow> json \<Rightarrow> json \<Rightarrow> call_state" where
  "CallState sid number dir ctype cname =
    \<lparr>call_sid = sid, caller_number = number, direction = dir, call_type = ctype,
     caller_name = cname, caller_email = JNull, caller_address = JNull,
     intake_data = JObj [], summary = JNull, turns = [], is_complete = False,
     turn_counter = 0, saved = False\<rparr>"

text \<open>\<^verbatim>\<open>CallState.add_turn\<close>; \<open>dumps\<close> is \<^verbatim>\<open>json.dumps\<close>.\<close>

definition add_turn :: "(json \<Rightarrow> string) \<Rightarrow> call_state \<Rightarrow> string \<Rightarrow> json \<Rightarrow> json \<Rightarrow> call_state" where
  "add_turn dumps s r c extracted_data =
    (let n = turn_counter s + 1 in
     s\<lparr>turn_counter := n,
       turns := turns s @
         [\<lparr>role = r, content = c, turnNumber = n,
           extractedData = (if truthy extracted_data then Some (dumps extracted_data) else None)\<rparr>]\<rparr>)"

section \<open>Function-call handlers\<close>

text \<open>
  A handler mutates the call state and then hands a string to \<^verbatim>\<open>result_callback\<close>. It
  catches nothing: when an operation raises, the mutations made so far stay and no
  string is handed over. So a handler returns the state it leaves and either the
  exception or the string.

  \<^verbatim>\<open>handle_classify_call\<close> also replaces message 0 of the conversation context by the
  system prompt of the new call type. The context is not part of the call state, no
  handler reads it, and turn backfill skips system messages; it is left out here.
\<close>

text \<open>The loop of \<^verbatim>\<open>handle_classify_call\<close> over the registry entry.\<close>

fun seed_fields :: "field_def list \<Rightarrow> json \<Rightarrow> json \<times> py_exn option" where
  "seed_fields [] d = (d, None)"
| "seed_fields (f # fs) d =
     (case py_contains d (key f) of
        Inl e \<Rightarrow> (d, Some e)
      | Inr True \<Rightarrow> seed_fields fs d
      | Inr False \<Rightarrow>
          (case py_setitem d (key f) (JStr []) of
             Inl e \<Rightarrow> (d, Some e)
           | Inr d' \<Rightarrow> seed_fields fs d'))"

definition emergency_directive :: string where
  "emergency_directive =
    ''Call classified as emergency. Provide immediate safety instructions and assure the caller a technician will call back within 15 minutes.''"

definition handle_classify_call ::
  "(json \<Rightarrow> string) \<Rightarrow> call_state \<Rightarrow> dict \<Rightarrow> call_state \<times> (py_exn + string)" where
  "handle_classify_call fmt s args =
    (let ctype = dict_get args ''call_type'' (JStr ''general'');
         s1 = s\<lparr>call_type := ctype\<rparr>
     in if ctype = JStr ''emergency'' then (s1, Inr emergency_directive)
        else (case registry_get ctype of
                Inl e \<Rightarrow> (s1, Inl e)
              | Inr flds \<Rightarrow>
                  (case seed_fields flds (intake_data s1) of
                     (d, Some e) \<Rightarrow> (s1\<lparr>intake_data := d\<rparr>, Inl e)
                   | (d, None) \<Rightarrow>
                       (s1\<lparr>intake_data := d\<rparr>,
                        Inr (''Call classified as '' @ py_str fmt ctype @
                             ''. Now begin collecting the intake information by asking about the first required field.'')))))"

text \<open>The loop of \<^verbatim>\<open>handle_update_intake\<close> over the submitted items.\<close>

fun store_fields :: "dict \<Rightarrow> json \<Rightarrow> json \<times> py_exn option" where
  "store_fields [] d = (d, None)"
| "store_fields ((k, v) # kvs) d =
     (if truthy v then
        (case py_setitem d k v of
           Inl e \<Rightarrow> (d, Some e)
         | Inr d' \<Rightarrow> store_fields kvs d')
      else store_fields kvs d)"

text \<open>A list comprehension whose condition can raise: it stops at the first element
  whose condition raises, and evaluates no condition on an empty list.\<close>

fun filter_exn :: "('a \<Rightarrow> py_exn + bool) \<Rightarrow> 'a list \<Rightarrow> py_exn + 'a list" where
  "filter_exn p [] = Inr []"
| "filter_exn p (x # xs) =
     (case p x of
        Inl e \<Rightarrow> Inl e
      | Inr b \<Rightarrow>
          (case filter_exn p xs of
             Inl e \<Rightarrow> Inl e
           | Inr ys \<Rightarrow> Inr (if b then x # ys else ys)))"

text \<open>\<^verbatim>\<open>call_state.intake_data.get(f["key"])\<close> read as a condition.\<close>

definition populated :: "json \<Rightarrow> field_def \<Rightarrow> py_exn + bool" where
  "populated d f = (case py_get d (key f) JNull of Inl e \<Rightarrow> Inl e | Inr v \<Rightarrow> Inr (truthy v))"

definition missing :: "json \<Rightarrow> field_def \<Rightarrow> py_exn + bool" where
  "missing d f = (case py_get d (key f) JNull of Inl e \<Rightarrow> Inl e | Inr v \<Rightarrow> Inr (\<not> truthy v))"

definition all_collected_directive :: string where
  "all_collected_directive =
    '' All fields collected! Read back a summary and ask the caller to confirm.''"

definition status_text :: "nat \<Rightarrow> field_def list \<Rightarrow> field_def list \<Rightarrow> field_def list \<Rightarrow> string" where
  "status_text n collected_required req remaining =
    ''Updated '' @ show_nat n @ '' field(s). '' @ show_nat (length collected_required) @ ''/'' @
    show_nat (length req) @ '' required fields collected.'' @
    (if remaining \<noteq> [] then '' Still needed: '' @ join '', '' (map label remaining) @ ''.''
     else all_collected_directive)"

definition handle_update_intake :: "call_state \<Rightarrow> dict \<Rightarrow> call_state \<times> (py_exn + string)" where
  "handle_update_intake s args =
    (case dict_get args ''fields'' (JObj []) of
       JObj submitted \<Rightarrow>
         (case store_fields submitted (intake_data s) of
            (d, Some e) \<Rightarrow> (s\<lparr>intake_data := d\<rparr>, Inl e)
          | (d, None) \<Rightarrow>
              (let s1 = s\<lparr>intake_data := d\<rparr> in
               case registry_get (call_type s1) of
                 Inl e \<Rightarrow> (s1, Inl e)
               | Inr all_fields \<Rightarrow>
                   (let req = filter required all_fields in
                    case filter_exn (populated d) req of
                      Inl e \<Rightarrow> (s1, Inl e)
                    | Inr collected_required \<Rightarrow>
                        (case filter_exn (missing d) all_fields of
                           Inl e \<Rightarrow> (s1, Inl e)
                         | Inr remaining \<Rightarrow>
                             (s1, Inr (status_text (length submitted) collected_required req remaining))))))
     | _ \<Rightarrow> (s, Inl AttributeError))"

definition handle_update_caller :: "call_state \<Rightarrow> dict \<Rightarrow> call_state \<times> string" where
  "handle_update_caller s args =
    (let s1 = (if truthy (dict_get args ''name'' JNull)
               then s\<lparr>caller_name := dict_get args ''name'' JNull\<rparr> else s);
         s2 = (if truthy (dict_get args ''email'' JNull)
               then s1\<lparr>caller_email := dict_get args ''email'' JNull\<rparr> else s1);
         s3 = (if truthy (dict_get args ''address'' JNull)
               then s2\<lparr>caller_address := dict_get args ''address'' JNull\<rparr> else s2)
     in (s3, ''Caller information updated. Continue with the intake.''))"

definition handle_complete_intake :: "call_state \<Rightarrow> dict \<Rightarrow> call_state \<times> string" where
  "handle_complete_intake s args =
    (s\<lparr>summary := dict_get args ''summary'' (JStr []), is_complete := True\<rparr>,
     ''Thank the caller warmly, let them know a specialist will follow up soon, and say goodbye.'')"

section \<open>Strings\<close>

text \<open>\<^verbatim>\<open>str.isspace\<close> on the code points below 256, and \<^verbatim>\<open>str.strip()\<close>.\<close>

definition is_space :: "char \<Rightarrow> bool" where
  "is_space c = ((of_char c :: nat) \<in> {9, 10, 11, 12, 13, 28, 29, 30, 31, 32, 133, 160})"

definition strip :: "string \<Rightarrow> string" where
  "strip s = rev (dropWhile is_space (rev (dropWhile is_space s)))"

definition newline :: char where
  "newline = CHR 0x0A"

text \<open>\<^verbatim>\<open>text.split("\n", 1)[1]\<close>, for a text that holds a newline: what follows the
  first one.\<close>

definition after_first_newline :: "string \<Rightarrow> string" where
  "after_first_newline t = tl (dropWhile (\<lambda>c. c \<noteq> newline) t)"

section \<open>Post-call extraction and summary\<close>

text \<open>
  The provider and the JSON parser are outside the repository. \<open>request\<close> stands for
  the request up to reading \<^verbatim>\<open>response.choices[0].message.content\<close>: it raises, or
  yields the content, which may be \<^verbatim>\<open>None\<close>. The request is fixed but for the field hint
  and the transcript. \<open>loads\<close> is \<^verbatim>\<open>json.loads\<close>: it raises or yields a value.
\<close>

definition strip_fences :: "string \<Rightarrow> string" where
  "strip_fences raw =
    (let t = strip raw;
         t1 = (if prefix ''```'' t
               then (if newline \<in> set t then after_first_newline t else drop 3 t)
               else t);
         t2 = (if suffix ''```'' t1 then take (length t1 - 3) t1 else t1)
     in strip t2)"

text \<open>\<^verbatim>\<open>call_type in CALL_TYPE_FIELDS\<close> hashes the call type.\<close>

fun fields_hint :: "json \<Rightarrow> py_exn + string" where
  "fields_hint (JStr s) =
     Inr (case map_of CALL_TYPE_FIELDS s of
            None \<Rightarrow> []
          | Some fs \<Rightarrow> ''Expected fields for a '' @ s @ '' call: '' @ join '', '' (map key fs))"
| "fields_hint (JArr xs) = Inl TypeError"
| "fields_hint (JObj m) = Inl TypeError"
| "fields_hint _ = Inr []"

text \<open>The body of the \<^verbatim>\<open>try\<close> block of \<^verbatim>\<open>post_call_extraction\<close>.\<close>

definition post_call_extraction_body ::
  "(string \<Rightarrow> string \<Rightarrow> py_exn + string option) \<Rightarrow> (string \<Rightarrow> py_exn + json) \<Rightarrow>
   string \<Rightarrow> json \<Rightarrow> py_exn + json" where
  "post_call_extraction_body request loads tr ctype =
    (case fields_hint ctype of
       Inl e \<Rightarrow> Inl e
     | Inr hint \<Rightarrow>
         (case request hint tr of
            Inl e \<Rightarrow> Inl e
          | Inr None \<Rightarrow> Inl AttributeError
          | Inr (Some raw) \<Rightarrow> loads (strip_fences raw)))"

text \<open>\<^verbatim>\<open>except Exception: return None\<close>.\<close>

definition post_call_extraction ::
  "(string \<Rightarrow> string \<Rightarrow> py_exn + string option) \<Rightarrow> (string \<Rightarrow> py_exn + json) \<Rightarrow>
   string \<Rightarrow> json \<Rightarrow> json" where
  "post_call_extraction request loads tr ctype =
    (case post_call_extraction_body request loads tr ctype of
       Inl e \<Rightarrow> JNull
     | Inr v \<Rightarrow> v)"

definition generate_summary :: "(string \<Rightarrow> py_exn + string option) \<Rightarrow> string \<Rightarrow> json" where
  "generate_summary request tr =
    (case request tr of
       Inl e \<Rightarrow> JNull
     | Inr None \<Rightarrow> JNull
     | Inr (Some raw) \<Rightarrow> JStr (strip raw))"

section \<open>Reconciliation\<close>

text \<open>The loop of step 1 of \<^verbatim>\<open>extract_from_context\<close>: the messages left, the local
  \<^verbatim>\<open>turn_number\<close>, the turn list so far.\<close>

fun backfill :: "dict list \<Rightarrow> int \<Rightarrow> turn list \<Rightarrow> turn list" where
  "backfill [] n ts = ts"
| "backfill (msg # msgs) n ts =
     (let r = dict_get msg ''role'' (JStr []);
          c = dict_get msg ''content'' (JStr [])
      in if \<not> truthy c \<or> r = JStr ''system'' then backfill msgs n ts
         else if r = JStr ''user'' then
           backfill msgs (n + 1)
             (ts @ [\<lparr>role = ''caller'', content = c, turnNumber = n + 1, extractedData = None\<rparr>])
         else if r = JStr ''assistant'' then
           backfill msgs (n + 1)
             (ts @ [\<lparr>role = ''agent'', content = c, turnNumber = n + 1, extractedData = None\<rparr>])
         else backfill msgs n ts)"

definition turn_backfill :: "dict list \<Rightarrow> call_state \<Rightarrow> call_state" where
  "turn_backfill msgs s = (if turns s = [] then s\<lparr>turns := backfill msgs 0 (turns s)\<rparr> else s)"

definition transcript_line :: "(json \<Rightarrow> string) \<Rightarrow> turn \<Rightarrow> string" where
  "transcript_line fmt t =
    (if role t = ''agent'' then ''Agent'' else ''Caller'') @ '': '' @ py_str fmt (content t)"

definition transcript :: "(json \<Rightarrow> string) \<Rightarrow> turn list \<Rightarrow> string" where
  "transcript fmt ts = join [newline] (map (transcript_line fmt) ts)"

text \<open>\<^verbatim>\<open>not d or all(v == "" for v in d.values())\<close>.\<close>

definition intake_empty :: "json \<Rightarrow> py_exn + bool" where
  "intake_empty d =
    (if \<not> truthy d then Inr True
     else (case d of
             JObj m \<Rightarrow> Inr (list_all (\<lambda>kv. snd kv = JStr []) m)
           | _ \<Rightarrow> Inl AttributeError))"

text \<open>The assignments made from a result that is a dict.\<close>

definition apply_extracted :: "call_state \<Rightarrow> dict \<Rightarrow> call_state" where
  "apply_extracted s x =
    (let s1 = s\<lparr>intake_data := dict_get x ''fields'' (JObj [])\<rparr>;
         s2 = s1\<lparr>summary := dict_get x ''summary'' (summary s1)\<rparr>;
         s3 = (if truthy (dict_get x ''callerName'' JNull)
               then s2\<lparr>caller_name := dict_get x ''callerName'' JNull\<rparr> else s2);
         s4 = (if truthy (dict_get x ''callerEmail'' JNull)
               then s3\<lparr>caller_email := dict_get x ''callerEmail'' JNull\<rparr> else s3);
         s5 = (if truthy (dict_get x ''callerAddress'' JNull)
               then s4\<lparr>caller_address := dict_get x ''callerAddress'' JNull\<rparr> else s4)
     in if \<not> truthy (call_type s5) \<or> call_type s5 = JStr ''unknown''
        then s5\<lparr>call_type := dict_get x ''callType'' (call_type s5)\<rparr> else s5)"

text \<open>What reconciliation asks of the outside, in order.\<close>

datatype effect = is_extraction: ExtractionCall string json | SummaryCall string

text \<open>Step 2. \<open>pce\<close> is \<^verbatim>\<open>post_call_extraction\<close> with its provider and parser. The
  third component is the exception that leaves the \<^verbatim>\<open>try\<close> block, if any.\<close>

definition intake_backfill ::
  "(json \<Rightarrow> string) \<Rightarrow> (string \<Rightarrow> json \<Rightarrow> json) \<Rightarrow> call_state \<Rightarrow>
   call_state \<times> effect list \<times> py_exn option" where
  "intake_backfill fmt pce s =
    (case intake_empty (intake_data s) of
       Inl e \<Rightarrow> (s, [], Some e)
     | Inr False \<Rightarrow> (s, [], None)
     | Inr True \<Rightarrow>
         (let tr = transcript fmt (turns s) in
          if strip tr = [] then (s, [], None)
          else
            (let ctype = (if truthy (call_type s) then call_type s else JStr ''unknown'');
                 extracted = pce tr ctype
             in if \<not> truthy extracted then (s, [ExtractionCall tr ctype], None)
                else (case extracted of
                        JObj x \<Rightarrow> (apply_extracted s x, [ExtractionCall tr ctype], None)
                      | _ \<Rightarrow> (s, [ExtractionCall tr ctype], Some AttributeError)))))"

text \<open>\<^verbatim>\<open>extract_from_context\<close>: an exception anywhere ends it, with the state as it is
  then. \<open>gs\<close> is \<^verbatim>\<open>generate_summary\<close> with its provider.\<close>

definition extract_from_context ::
  "(json \<Rightarrow> string) \<Rightarrow> (string \<Rightarrow> json \<Rightarrow> json) \<Rightarrow> (string \<Rightarrow> json) \<Rightarrow>
   dict list \<Rightarrow> call_state \<Rightarrow> call_state \<times> effect list" where
  "extract_from_context fmt pce gs msgs s =
    (case intake_backfill fmt pce (turn_backfill msgs s) of
       (s2, fx, Some e) \<Rightarrow> (s2, fx)
     | (s2, fx, None) \<Rightarrow>
         (if \<not> truthy (summary s2) \<and> turns s2 \<noteq> []
          then (s2\<lparr>summary := gs (transcript fmt (turns s2))\<rparr>,
                fx @ [SummaryCall (transcript fmt (turns s2))])
          else (s2, fx)))"

section \<open>Persistence dispatcher\<close>

record payload =
  twilioCallSid :: string
  callerNumber :: string
  payload_direction :: string
  callType :: json
  callerName :: json
  callerEmail :: json
  callerAddress :: json
  intakeData :: "string option"
  payload_summary :: json
  payload_turns :: "turn list"

text \<open>\<^verbatim>\<open>CallState.to_payload\<close>.\<close>

definition to_payload :: "(json \<Rightarrow> string) \<Rightarrow> call_state \<Rightarrow> payload" where
  "to_payload dumps s =
    \<lparr>twilioCallSid = call_sid s, callerNumber = caller_number s,
     payload_direction = direction s,
     callType = (if truthy (call_type s) then call_type s else JStr ''unknown''),
     callerName = caller_name s, callerEmail = caller_email s,
     callerAddress = caller_address s,
     intakeData = (if truthy (intake_data s) then Some (dumps (intake_data s)) else None),
     payload_summary = summary s, payload_turns = turns s\<rparr>"

record delivery =
  endpoint :: string
  body :: payload

datatype save_outcome =
    AlreadySaved
  | NoTurns
  | Saved
  | FailedStatus int
  | FailedException py_exn

text \<open>\<^verbatim>\<open>save_call_data\<close>. \<open>api_url\<close> is the environment's \<^verbatim>\<open>NEXTJS_API_URL\<close>; \<open>post\<close> is
  the HTTP request: it raises, or yields the response's status together with the
  exception, if any, that reading the response body raises (\<^verbatim>\<open>resp.json()\<close> for status
  200, \<^verbatim>\<open>resp.text()\<close> otherwise). The result is the state left, the requests issued,
  and which log line was written.\<close>

definition save_call_data ::
  "(json \<Rightarrow> string) \<Rightarrow> string option \<Rightarrow> (delivery \<Rightarrow> py_exn + int \<times> py_exn option) \<Rightarrow>
   call_state \<Rightarrow> call_state \<times> delivery list \<times> save_outcome" where
  "save_call_data dumps api_url post s =
    (if saved s then (s, [], AlreadySaved)
     else if turns s = [] then (s, [], NoTurns)
     else
       (let s1 = s\<lparr>saved := True\<rparr>;
            d = \<lparr>endpoint = (case api_url of None \<Rightarrow> ''http://localhost:3000'' | Some u \<Rightarrow> u) @
                             ''/api/call-complete'',
                 body = to_payload dumps s1\<rparr>
        in (s1, [d],
            (case post d of
               Inl e \<Rightarrow> FailedException e
             | Inr (code, Some e) \<Rightarrow> FailedException e
             | Inr (code, None) \<Rightarrow> if code = 200 then Saved else FailedStatus code))))"

section \<open>A call session\<close>

text \<open>Everything that acts on one call state, and a session as a sequence of such
  steps; the requests the persistence dispatcher issues are collected.\<close>

datatype step =
    ClassifyCall dict
  | UpdateIntake dict
  | UpdateCaller dict
  | CompleteIntake dict
  | AddTurn string json json
  | Reconcile "string \<Rightarrow> json \<Rightarrow> json" "string \<Rightarrow> json" "dict list"
  | Save "string option" "delivery \<Rightarrow> py_exn + int \<times> py_exn option"

fun run_step ::
  "(json \<Rightarrow> string) \<Rightarrow> (json \<Rightarrow> string) \<Rightarrow> step \<Rightarrow> call_state \<Rightarrow> call_state \<times> delivery list" where
  "run_step fmt dumps (ClassifyCall args) s = (fst (handle_classify_call fmt s args), [])"
| "run_step fmt dumps (UpdateIntake args) s = (fst (handle_update_intake s args), [])"
| "run_step fmt dumps (UpdateCaller args) s = (fst (handle_update_caller s args), [])"
| "run_step fmt dumps (CompleteIntake args) s = (fst (handle_complete_intake s args), [])"
| "run_step fmt dumps (AddTurn r c e) s = (add_turn dumps s r c e, [])"
| "run_step fmt dumps (Reconcile pce gs msgs) s = (fst (extract_from_context fmt pce gs msgs s), [])"
| "run_step fmt dumps (Save api_url post) s =
     (case save_call_data dumps api_url post s of (s', ds, outcome) \<Rightarrow> (s', ds))"

fun run_session ::
  "(json \<Rightarrow> string) \<Rightarrow> (json \<Rightarrow> string) \<Rightarrow> step list \<Rightarrow> call_state \<Rightarrow> call_state \<times> delivery list" where
  "run_session fmt dumps [] s = (s, [])"
| "run_session fmt dumps (x # xs) s =
     (case run_step fmt dumps x s of
        (s1, ds) \<Rightarrow> (case run_session fmt dumps xs s1 of (s2, ds') \<Rightarrow> (s2, ds @ ds')))"

section \<open>Example states\<close>

definition demo_state :: call_state where
  "demo_state = (CallState ''CA1'' ''+16045550100'' ''inbound'' JNull (JStr ''Ann''))
     \<lparr>caller_email := JStr ''ann@example.com'', caller_address := JStr ''12 Main St'',
      intake_data := JObj [(''buildingType'', JStr ''office'')]\<rparr>"

definition design_state :: call_state where
  "design_state = (CallState ''CA2'' ''+16045550101'' ''inbound'' (JStr ''design'') JNull)
     \<lparr>intake_data := JObj
        [(''buildingType'', JStr ''office''), (''buildingSize'', JStr ''5000''),
         (''location'', JStr ''Surrey''), (''projectGoals'', JStr ''heat pump retrofit''),
         (''timeline'', JStr []), (''budget'', JStr []), (''existingSystem'', JStr []),
         (''specialRequirements'', JStr [])]\<rparr>"

definition seeded_state :: call_state where
  "seeded_state = (CallState ''CA4'' ''+16045550103'' ''outbound'' (JStr ''design'') (JStr ''Ann''))
     \<lparr>intake_data := JObj [(''buildingType'', JStr []), (''location'', JStr [])]\<rparr>"

definition one_message :: "dict list" where
  "one_message = [[(''role'', JStr ''user''), (''content'', JStr ''This is Bob, we need a heat pump'')]]"

definition found :: dict where
  "found = [(''fields'', JObj [(''buildingType'', JStr ''office'')]), (''callerName'', JStr ''Bob'')]"

section \<open>Reading a message history\<close>

text \<open>What turn backfill is to make of one context message, numbering apart: a message
  with content and role \<^verbatim>\<open>user\<close> is a caller turn, one with content and role
  \<^verbatim>\<open>assistant\<close> an agent turn, and any other message (a system message, a message
  without content, any other role) gives no turn.\<close>

definition spoken :: "dict \<Rightarrow> (string \<times> json) list" where
  "spoken msg =
    (let r = dict_get msg ''role'' (JStr []); c = dict_get msg ''content'' (JStr []) in
     if truthy c \<and> r = JStr ''user'' then [(''caller'', c)]
     else if truthy c \<and> r = JStr ''assistant'' then [(''agent'', c)]
     else [])"


section \<open>Auxiliary facts\<close>

declare show_nat.simps [simp del]

lemma show_nat_1: "show_nat (Suc 0) = ''1''"
  by code_simp

lemma show_nat_5: "show_nat (Suc (Suc (Suc (Suc (Suc 0))))) = ''5''"
  by code_simp

lemma seed_fields_dict:
  "\<exists>m'. seed_fields fs (JObj m) = (JObj m', None) \<and>
        (\<forall>k. map_of m' k =
           (case map_of m k of Some v \<Rightarrow> Some v
            | None \<Rightarrow> if k \<in> key ` set fs then Some (JStr []) else None))"
proof (induction fs arbitrary: m)
  case Nil
  then show ?case by (auto split: option.splits)
next
  case (Cons f fs)
  show ?case
  proof (cases "key f \<in> fst ` set m")
    case True
    then have some: "map_of m (key f) \<noteq> None"
      by (simp add: map_of_eq_None_iff)
    from Cons.IH [of m] obtain m' where
      m': "seed_fields fs (JObj m) = (JObj m', None)"
      "\<forall>k. map_of m' k = (case map_of m k of Some v \<Rightarrow> Some v
            | None \<Rightarrow> if k \<in> key ` set fs then Some (JStr []) else None)"
      by blast
    have "seed_fields (f # fs) (JObj m) = (JObj m', None)"
      using True m'(1) by simp
    moreover have "\<forall>k. map_of m' k = (case map_of m k of Some v \<Rightarrow> Some v
            | None \<Rightarrow> if k \<in> key ` set (f # fs) then Some (JStr []) else None)"
      using m'(2) some by (auto split: option.splits)
    ultimately show ?thesis by blast
  next
    case False
    then have none: "map_of m (key f) = None"
      by (simp add: map_of_eq_None_iff)
    from Cons.IH [of "AList.update (key f) (JStr []) m"] obtain m' where
      m': "seed_fields fs (JObj (AList.update (key f) (JStr []) m)) = (JObj m', None)"
      "\<forall>k. map_of m' k = (case map_of (AList.update (key f) (JStr []) m) k of Some v \<Rightarrow> Some v
            | None \<Rightarrow> if k \<in> key ` set fs then Some (JStr []) else None)"
      by blast
    have "seed_fields (f # fs) (JObj m) = (JObj m', None)"
      using False m'(1) by simp
    moreover have "\<forall>k. map_of m' k = (case map_of m k of Some v \<Rightarrow> Some v
            | None \<Rightarrow> if k \<in> key ` set (f # fs) then Some (JStr []) else None)"
      using m'(2) none by (auto simp: AList.update_conv' split: option.splits)
    ultimately show ?thesis by blast
  qed
qed

lemma store_fields_dict:
  "distinct (map fst kvs) \<Longrightarrow>
   \<exists>m'. store_fields kvs (JObj m) = (JObj m', None) \<and>
        (\<forall>k. map_of m' k =
           (case map_of kvs k of
              Some v \<Rightarrow> if truthy v then Some v else map_of m k
            | None \<Rightarrow> map_of m k))"
proof (induction kvs arbitrary: m)
  case Nil
  then show ?case by simp
next
  case (Cons kv kvs)
  obtain k v where kv: "kv = (k, v)" by (cases kv)
  from Cons.prems kv have d: "distinct (map fst kvs)" and nk: "map_of kvs k = None"
    by (auto simp: map_of_eq_None_iff)
  show ?case
  proof (cases "truthy v")
    case True
    from Cons.IH [OF d, of "AList.update k v m"] obtain m' where
      m': "store_fields kvs (JObj (AList.update k v m)) = (JObj m', None)"
      "\<forall>k'. map_of m' k' = (case map_of kvs k' of
              Some v' \<Rightarrow> if truthy v' then Some v' else map_of (AList.update k v m) k'
            | None \<Rightarrow> map_of (AList.update k v m) k')"
      by blast
    have "store_fields (kv # kvs) (JObj m) = (JObj m', None)"
      using True m'(1) kv by simp
    moreover have "\<forall>k'. map_of m' k' = (case map_of (kv # kvs) k' of
              Some v' \<Rightarrow> if truthy v' then Some v' else map_of m k'
            | None \<Rightarrow> map_of m k')"
      using m'(2) nk True kv by (auto simp: AList.update_conv' split: option.splits)
    ultimately show ?thesis by blast
  next
    case False
    from Cons.IH [OF d, of m] obtain m' where
      m': "store_fields kvs (JObj m) = (JObj m', None)"
      "\<forall>k'. map_of m' k' = (case map_of kvs k' of
              Some v' \<Rightarrow> if truthy v' then Some v' else map_of m k'
            | None \<Rightarrow> map_of m k')"
      by blast
    have "store_fields (kv # kvs) (JObj m) = (JObj m', None)"
      using False m'(1) kv by simp
    moreover have "\<forall>k'. map_of m' k' = (case map_of (kv # kvs) k' of
              Some v' \<Rightarrow> if truthy v' then Some v' else map_of m k'
            | None \<Rightarrow> map_of m k')"
      using m'(2) nk False kv by (auto split: option.splits)
    ultimately show ?thesis by blast
  qed
qed

lemma directive_promises_callback:
  "sublist ''a technician will call back within 15 minutes'' emergency_directive"
proof -
  have "emergency_directive =
      ''Call classified as emergency. Provide immediate safety instructions and assure the caller '' @
      ''a technician will call back within 15 minutes'' @ ''.''"
    by (simp add: emergency_directive_def)
  then show ?thesis by (metis sublist_appendI)
qed

lemma registry_not_emergency:
  "map_of CALL_TYPE_FIELDS ct = Some fs \<Longrightarrow> ct \<noteq> ''emergency''"
  by (auto simp: CALL_TYPE_FIELDS_def)

lemma store_fields_total: "\<exists>m'. store_fields kvs (JObj m) = (JObj m', None)"
  by (induction kvs arbitrary: m) auto

lemma filter_exn_total:
  "(\<And>x. p x = Inr (q x)) \<Longrightarrow> filter_exn p xs = Inr (filter q xs)"
  by (induction xs) auto

lemma filter_empty_iff_all: "(filter (\<lambda>x. \<not> P x) xs = []) = (\<forall>x \<in> set xs. P x)"
  by (induction xs) auto

lemma backfill_append: "backfill msgs n ts = ts @ backfill msgs n []"
proof (induction msgs arbitrary: n ts)
  case Nil
  show ?case by simp
next
  case (Cons msg msgs)
  show ?case
    using Cons.IH [of n ts] Cons.IH [of "n + 1" "ts @ [t]" for t] Cons.IH [of "n + 1" "[t]" for t]
    by (simp add: Let_def)
qed

lemma upto_cons: "(n + 1) # [n + 1 + 1 .. n + 1 + int k] = [n + 1 .. n + int (Suc k)]"
proof -
  have eq: "n + int (Suc k) = n + 1 + int k"
    by simp
  have "[n + 1 .. n + 1 + int k] = (n + 1) # [n + 1 + 1 .. n + 1 + int k]"
    by (rule upto_rec1) simp
  then show ?thesis
    unfolding eq by (rule sym)
qed

lemma backfill_numbers:
  "map turnNumber (backfill msgs n []) = [n + 1 .. n + int (length (backfill msgs n []))]"
proof (induction msgs arbitrary: n)
  case Nil
  show ?case by simp
next
  case (Cons msg msgs)
  have step: "map turnNumber (t # backfill msgs (n + 1) []) =
      [n + 1 .. n + int (length (t # backfill msgs (n + 1) []))]"
    if "turnNumber t = n + 1" for t
  proof -
    have "map turnNumber (t # backfill msgs (n + 1) []) =
        (n + 1) # [n + 1 + 1 .. n + 1 + int (length (backfill msgs (n + 1) []))]"
      using Cons.IH [of "n + 1"] that by simp
    also have "\<dots> = [n + 1 .. n + int (Suc (length (backfill msgs (n + 1) [])))]"
      by (rule upto_cons)
    finally show ?thesis by simp
  qed
  have app: "backfill msgs (n + 1) [t] = t # backfill msgs (n + 1) []" for t
    using backfill_append [of msgs "n + 1" "[t]"] by simp
  show ?case
  proof (cases "\<not> truthy (dict_get msg ''content'' (JStr [])) \<or>
                dict_get msg ''role'' (JStr []) = JStr ''system''")
    case True
    then show ?thesis using Cons.IH [of n] by (simp add: Let_def)
  next
    case False
    note ns = this
    show ?thesis
    proof (cases "dict_get msg ''role'' (JStr []) = JStr ''user''")
      case True
      have e: "backfill (msg # msgs) n [] =
          \<lparr>role = ''caller'', content = dict_get msg ''content'' (JStr []),
           turnNumber = n + 1, extractedData = None\<rparr> # backfill msgs (n + 1) []"
        using ns True app by (simp add: Let_def)
      show ?thesis unfolding e by (rule step) simp
    next
      case False
      note nu = this
      show ?thesis
      proof (cases "dict_get msg ''role'' (JStr []) = JStr ''assistant''")
        case True
        have e: "backfill (msg # msgs) n [] =
            \<lparr>role = ''agent'', content = dict_get msg ''content'' (JStr []),
             turnNumber = n + 1, extractedData = None\<rparr> # backfill msgs (n + 1) []"
          using ns nu True app by (simp add: Let_def)
        show ?thesis unfolding e by (rule step) simp
      next
        case False
        then show ?thesis using ns nu Cons.IH [of n] by (simp add: Let_def)
      qed
    qed
  qed
qed

lemma backfill_speakers:
  "map (\<lambda>t. (role t, content t)) (backfill msgs n []) = concat (map spoken msgs)"
proof (induction msgs arbitrary: n)
  case Nil
  show ?case by simp
next
  case (Cons msg msgs)
  show ?case
    using Cons.IH [of n] Cons.IH [of "n + 1"] backfill_append [of msgs "n + 1" "[t]" for t]
    by (simp add: Let_def spoken_def)
qed

lemma apply_extracted_turns [simp]:
  "turns (apply_extracted s x) = turns s" "turn_counter (apply_extracted s x) = turn_counter s"
  "saved (apply_extracted s x) = saved s"
  by (simp_all add: apply_extracted_def Let_def)

lemma intake_backfill_turns [simp]:
  "turns (fst (intake_backfill fmt pce s)) = turns s"
  "turn_counter (fst (intake_backfill fmt pce s)) = turn_counter s"
  "saved (fst (intake_backfill fmt pce s)) = saved s"
  by (simp_all add: intake_backfill_def Let_def split: sum.splits bool.splits json.splits)

lemma turn_backfill_frame [simp]:
  "turn_counter (turn_backfill msgs s) = turn_counter s"
  "saved (turn_backfill msgs s) = saved s"
  by (simp_all add: turn_backfill_def)

lemma extract_turns:
  "turns (fst (extract_from_context fmt pce gs msgs s)) = turns (turn_backfill msgs s)"
  "turn_counter (fst (extract_from_context fmt pce gs msgs s)) = turn_counter s"
  "saved (fst (extract_from_context fmt pce gs msgs s)) = saved s"
proof -
  obtain s2 fx e where r: "intake_backfill fmt pce (turn_backfill msgs s) = (s2, fx, e)"
    by (cases "intake_backfill fmt pce (turn_backfill msgs s)") auto
  have a: "turns s2 = turns (turn_backfill msgs s)"
    using intake_backfill_turns(1) [of fmt pce "turn_backfill msgs s"] unfolding r by simp
  have b: "turn_counter s2 = turn_counter s"
    using intake_backfill_turns(2) [of fmt pce "turn_backfill msgs s"] unfolding r by simp
  have c: "saved s2 = saved s"
    using intake_backfill_turns(3) [of fmt pce "turn_backfill msgs s"] unfolding r by simp
  show "turns (fst (extract_from_context fmt pce gs msgs s)) = turns (turn_backfill msgs s)"
    using a by (simp add: extract_from_context_def r split: option.splits)
  show "turn_counter (fst (extract_from_context fmt pce gs msgs s)) = turn_counter s"
    using b by (simp add: extract_from_context_def r split: option.splits)
  show "saved (fst (extract_from_context fmt pce gs msgs s)) = saved s"
    using c by (simp add: extract_from_context_def r split: option.splits)
qed

lemma classify_frame:
  "turns (fst (handle_classify_call fmt s args)) = turns s"
  "turn_counter (fst (handle_classify_call fmt s args)) = turn_counter s"
  "saved (fst (handle_classify_call fmt s args)) = saved s"
  by (simp_all add: handle_classify_call_def Let_def split: sum.splits prod.splits option.splits)

lemma update_intake_frame:
  "turns (fst (handle_update_intake s args)) = turns s"
  "turn_counter (fst (handle_update_intake s args)) = turn_counter s"
  "saved (fst (handle_update_intake s args)) = saved s"
  by (simp_all add: handle_update_intake_def Let_def
      split: sum.splits prod.splits option.splits json.splits)

lemma update_caller_frame:
  "turns (fst (handle_update_caller s args)) = turns s"
  "turn_counter (fst (handle_update_caller s args)) = turn_counter s"
  "saved (fst (handle_update_caller s args)) = saved s"
  by (simp_all add: handle_update_caller_def Let_def)

lemma complete_frame:
  "turns (fst (handle_complete_intake s args)) = turns s"
  "turn_counter (fst (handle_complete_intake s args)) = turn_counter s"
  "saved (fst (handle_complete_intake s args)) = saved s"
  by (simp_all add: handle_complete_intake_def)

lemma save_frame:
  "turns (fst (save_call_data dumps api_url post s)) = turns s"
  "turn_counter (fst (save_call_data dumps api_url post s)) = turn_counter s"
  by (simp_all add: save_call_data_def Let_def)

lemma add_turn_frame:
  "turns (add_turn dumps s r c e) =
     turns s @ [\<lparr>role = r, content = c, turnNumber = turn_counter s + 1,
                 extractedData = (if truthy e then Some (dumps e) else None)\<rparr>]"
  "turn_counter (add_turn dumps s r c e) = turn_counter s + 1"
  "saved (add_turn dumps s r c e) = saved s"
  by (simp_all add: add_turn_def Let_def)

lemma upto_snoc: "[1 .. int n] @ [int n + 1] = [1 .. int (Suc n)]"
proof -
  have "[1 .. int (Suc n)] = [1 .. int (Suc n) - 1] @ [int (Suc n)]"
    by (rule upto_rec2) simp
  then show ?thesis by simp
qed

lemma run_step_fst:
  "fst (run_step fmt dumps (ClassifyCall args) s) = fst (handle_classify_call fmt s args)"
  "fst (run_step fmt dumps (UpdateIntake args) s) = fst (handle_update_intake s args)"
  "fst (run_step fmt dumps (UpdateCaller args) s) = fst (handle_update_caller s args)"
  "fst (run_step fmt dumps (CompleteIntake args) s) = fst (handle_complete_intake s args)"
  "fst (run_step fmt dumps (AddTurn r c e) s) = add_turn dumps s r c e"
  "fst (run_step fmt dumps (Reconcile pce gs msgs) s) = fst (extract_from_context fmt pce gs msgs s)"
  "fst (run_step fmt dumps (Save api_url post) s) = fst (save_call_data dumps api_url post s)"
  by (simp_all split: prod.splits)

lemma run_step_live:
  assumes "\<forall>pce gs msgs. x \<noteq> Reconcile pce gs msgs"
    and "turn_counter s = int (length (turns s))"
    and "map turnNumber (turns s) = [1 .. int (length (turns s))]"
  shows "turn_counter (fst (run_step fmt dumps x s)) = int (length (turns (fst (run_step fmt dumps x s)))) \<and>
         map turnNumber (turns (fst (run_step fmt dumps x s))) =
           [1 .. int (length (turns (fst (run_step fmt dumps x s))))]"
proof (cases x)
  case (ClassifyCall args)
  then show ?thesis using assms by (simp add: classify_frame)
next
  case (UpdateIntake args)
  then show ?thesis using assms by (simp add: update_intake_frame)
next
  case (UpdateCaller args)
  then show ?thesis using assms by (simp add: update_caller_frame)
next
  case (CompleteIntake args)
  then show ?thesis using assms by (simp add: complete_frame)
next
  case (AddTurn r c e)
  then show ?thesis using assms upto_snoc [of "length (turns s)"]
    by (simp add: add_turn_frame)
next
  case (Reconcile pce gs msgs)
  then show ?thesis using assms(1) by simp
next
  case (Save api_url post)
  have "fst (case save_call_data dumps api_url post s of (s', ds, outcome) \<Rightarrow> (s', ds)) =
      fst (save_call_data dumps api_url post s)"
    by (simp split: prod.splits)
  then show ?thesis using Save assms by (simp add: save_frame)
qed

lemma run_step_post:
  assumes "\<forall>r c e. x \<noteq> AddTurn r c e"
    and "map turnNumber (turns s) = [1 .. int (length (turns s))]"
  shows "map turnNumber (turns (fst (run_step fmt dumps x s))) =
           [1 .. int (length (turns (fst (run_step fmt dumps x s))))]"
proof (cases x)
  case (ClassifyCall args)
  then show ?thesis using assms by (simp add: classify_frame)
next
  case (UpdateIntake args)
  then show ?thesis using assms by (simp add: update_intake_frame)
next
  case (UpdateCaller args)
  then show ?thesis using assms by (simp add: update_caller_frame)
next
  case (CompleteIntake args)
  then show ?thesis using assms by (simp add: complete_frame)
next
  case (AddTurn r c e)
  then show ?thesis using assms(1) by simp
next
  case (Reconcile pce gs msgs)
  show ?thesis
  proof (cases "turns s = []")
    case True
    then have "turns (fst (run_step fmt dumps x s)) = backfill msgs 0 []"
      using Reconcile by (simp add: extract_turns turn_backfill_def)
    then show ?thesis using backfill_numbers [of msgs 0] by simp
  next
    case False
    then have "turns (fst (run_step fmt dumps x s)) = turns s"
      using Reconcile by (simp add: extract_turns turn_backfill_def)
    then show ?thesis using assms(2) by simp
  qed
next
  case (Save api_url post)
  have "fst (case save_call_data dumps api_url post s of (s', ds, outcome) \<Rightarrow> (s', ds)) =
      fst (save_call_data dumps api_url post s)"
    by (simp split: prod.splits)
  then show ?thesis using Save assms by (simp add: save_frame)
qed

lemma run_session_Cons:
  "fst (run_session fmt dumps (x # xs) s) = fst (run_session fmt dumps xs (fst (run_step fmt dumps x s)))"
  by (simp split: prod.splits)

lemma run_session_append:
  "fst (run_session fmt dumps (xs @ ys) s) =
     fst (run_session fmt dumps ys (fst (run_session fmt dumps xs s)))"
proof (induction xs arbitrary: s)
  case Nil
  show ?case by simp
next
  case (Cons x xs)
  show ?case
    using Cons.IH [of "fst (run_step fmt dumps x s)"]
    by (simp only: append_Cons run_session_Cons)
qed

lemma run_session_live:
  assumes "\<forall>pce gs msgs. Reconcile pce gs msgs \<notin> set xs"
    and "turn_counter s = int (length (turns s))"
    and "map turnNumber (turns s) = [1 .. int (length (turns s))]"
  shows "turn_counter (fst (run_session fmt dumps xs s)) =
           int (length (turns (fst (run_session fmt dumps xs s)))) \<and>
         map turnNumber (turns (fst (run_session fmt dumps xs s))) =
           [1 .. int (length (turns (fst (run_session fmt dumps xs s))))]"
  using assms
proof (induction xs arbitrary: s)
  case Nil
  then show ?case by simp
next
  case (Cons x xs)
  have x: "\<forall>pce gs msgs. x \<noteq> Reconcile pce gs msgs"
    using Cons.prems(1) by auto
  have xs: "\<forall>pce gs msgs. Reconcile pce gs msgs \<notin> set xs"
    using Cons.prems(1) by auto
  from run_step_live [OF x Cons.prems(2) Cons.prems(3), of fmt dumps]
  have "turn_counter (fst (run_step fmt dumps x s)) =
          int (length (turns (fst (run_step fmt dumps x s))))"
    and "map turnNumber (turns (fst (run_step fmt dumps x s))) =
           [1 .. int (length (turns (fst (run_step fmt dumps x s))))]"
    by simp_all
  from Cons.IH [OF xs this] show ?case
    by (simp only: run_session_Cons)
qed

lemma run_session_post:
  assumes "\<forall>r c e. AddTurn r c e \<notin> set xs"
    and "map turnNumber (turns s) = [1 .. int (length (turns s))]"
  shows "map turnNumber (turns (fst (run_session fmt dumps xs s))) =
           [1 .. int (length (turns (fst (run_session fmt dumps xs s))))]"
  using assms
proof (induction xs arbitrary: s)
  case Nil
  then show ?case by simp
next
  case (Cons x xs)
  have x: "\<forall>r c e. x \<noteq> AddTurn r c e"
    using Cons.prems(1) by auto
  have xs: "\<forall>r c e. AddTurn r c e \<notin> set xs"
    using Cons.prems(1) by auto
  from Cons.IH [OF xs run_step_post [OF x Cons.prems(2), of fmt dumps]] show ?case
    by (simp only: run_session_Cons)
qed

lemma upto_snoc_int: "0 \<le> c \<Longrightarrow> [1 .. c] @ [c + 1] = [1 .. c + 1]"
proof -
  assume "0 \<le> c"
  then have "1 \<le> c + 1"
    by simp
  then have "[1 .. c + 1] = [1 .. c + 1 - 1] @ [c + 1]"
    by (rule upto_rec2)
  also have "c + 1 - 1 = c"
    by simp
  finally show ?thesis
    by (rule sym)
qed


lemma upto_restart_iff:
  fixes c n :: int
  assumes "0 \<le> c" and "c \<le> n"
  shows "([1 .. n - c] @ [1 .. c] = [1 .. n]) = (c = 0 \<or> c = n)"
proof
  assume eq: "[1 .. n - c] @ [1 .. c] = [1 .. n]"
  show "c = 0 \<or> c = n"
  proof (rule ccontr)
    assume "\<not> (c = 0 \<or> c = n)"
    then have c: "0 < c" "c < n"
      using assms by simp_all
    have le1: "1 \<le> n - c" and le2: "n - c \<le> n"
      using c by simp_all
    have sp: "[1 .. n] = [1 .. n - c] @ [n - c + 1 .. n]"
      using le1 le2 by (rule upto_split2)
    have "[1 .. n - c] @ [1 .. c] = [1 .. n - c] @ [n - c + 1 .. n]"
      using eq sp by (rule trans)
    then have tl: "[1 .. c] = [n - c + 1 .. n]"
      by (simp only: same_append_eq)
    have c1: "(1::int) \<le> c" and c2: "n - c + 1 \<le> n"
      using c by simp_all
    have h1: "[1 .. c] = 1 # [1 + 1 .. c]"
      using c1 by (rule upto_rec1)
    have h2: "[n - c + 1 .. n] = (n - c + 1) # [n - c + 1 + 1 .. n]"
      using c2 by (rule upto_rec1)
    have "1 # [1 + 1 .. c] = (n - c + 1) # [n - c + 1 + 1 .. n]"
      using tl unfolding h1 [symmetric] h2 [symmetric] .
    then have "1 = n - c + 1"
      by (simp only: list.inject)
    then show False
      using c by simp
  qed
next
  assume "c = 0 \<or> c = n"
  then show "[1 .. n - c] @ [1 .. c] = [1 .. n]"
  proof
    assume "c = 0"
    then show ?thesis by simp
  next
    assume "c = n"
    then show ?thesis by simp
  qed
qed


lemma run_step_numbering:
  assumes c0: "0 \<le> turn_counter s" and cn: "turn_counter s \<le> int (length (turns s))"
    and num: "map turnNumber (turns s) =
       [1 .. int (length (turns s)) - turn_counter s] @ [1 .. turn_counter s]"
  shows "0 \<le> turn_counter (fst (run_step fmt dumps x s)) \<and>
         turn_counter (fst (run_step fmt dumps x s)) \<le> int (length (turns (fst (run_step fmt dumps x s)))) \<and>
         map turnNumber (turns (fst (run_step fmt dumps x s))) =
           [1 .. int (length (turns (fst (run_step fmt dumps x s)))) -
                 turn_counter (fst (run_step fmt dumps x s))] @
           [1 .. turn_counter (fst (run_step fmt dumps x s))]"
proof (cases x)
  case (ClassifyCall args)
  then show ?thesis using assms by (simp add: run_step_fst classify_frame del: run_step.simps)
next
  case (UpdateIntake args)
  then show ?thesis using assms by (simp add: run_step_fst update_intake_frame del: run_step.simps)
next
  case (UpdateCaller args)
  then show ?thesis using assms by (simp add: run_step_fst update_caller_frame del: run_step.simps)
next
  case (CompleteIntake args)
  then show ?thesis using assms by (simp add: run_step_fst complete_frame del: run_step.simps)
next
  case (AddTurn r c e)
  let ?s' = "fst (run_step fmt dumps x s)"
  have t: "map turnNumber (turns ?s') = map turnNumber (turns s) @ [turn_counter s + 1]"
    and k: "turn_counter ?s' = turn_counter s + 1"
    and n: "int (length (turns ?s')) = int (length (turns s)) + 1"
    using AddTurn by (simp_all add: run_step_fst add_turn_frame del: run_step.simps)
  have d: "int (length (turns s)) + 1 - (turn_counter s + 1) = int (length (turns s)) - turn_counter s"
    by simp
  have "map turnNumber (turns ?s') =
      [1 .. int (length (turns s)) - turn_counter s] @ ([1 .. turn_counter s] @ [turn_counter s + 1])"
    unfolding t num by simp
  also have "[1 .. turn_counter s] @ [turn_counter s + 1] = [1 .. turn_counter s + 1]"
    using c0 by (rule upto_snoc_int)
  finally have "map turnNumber (turns ?s') =
      [1 .. int (length (turns ?s')) - turn_counter ?s'] @ [1 .. turn_counter ?s']"
    unfolding n k d .
  moreover have "0 \<le> turn_counter ?s'" "turn_counter ?s' \<le> int (length (turns ?s'))"
    unfolding n k using c0 cn by simp_all
  ultimately show ?thesis by blast
next
  case (Reconcile pce gs msgs)
  show ?thesis
  proof (cases "turns s = []")
    case True
    then have z: "turn_counter s = 0"
      using c0 cn by simp
    have t: "turns (fst (run_step fmt dumps x s)) = backfill msgs 0 []"
      using Reconcile True by (simp add: run_step_fst extract_turns turn_backfill_def del: run_step.simps)
    have k: "turn_counter (fst (run_step fmt dumps x s)) = 0"
      using Reconcile z by (simp add: run_step_fst extract_turns del: run_step.simps)
    show ?thesis
      unfolding t k using backfill_numbers [of msgs 0] by simp
  next
    case False
    then have t: "turns (fst (run_step fmt dumps x s)) = turns s"
      using Reconcile by (simp add: run_step_fst extract_turns turn_backfill_def del: run_step.simps)
    have k: "turn_counter (fst (run_step fmt dumps x s)) = turn_counter s"
      using Reconcile by (simp add: run_step_fst extract_turns del: run_step.simps)
    show ?thesis
      unfolding t k using assms by simp
  qed
next
  case (Save api_url post)
  then show ?thesis using assms by (simp add: run_step_fst save_frame del: run_step.simps)
qed

lemma run_session_numbering:
  assumes "0 \<le> turn_counter s" and "turn_counter s \<le> int (length (turns s))"
    and "map turnNumber (turns s) =
       [1 .. int (length (turns s)) - turn_counter s] @ [1 .. turn_counter s]"
  shows "0 \<le> turn_counter (fst (run_session fmt dumps xs s)) \<and>
         turn_counter (fst (run_session fmt dumps xs s)) \<le>
           int (length (turns (fst (run_session fmt dumps xs s)))) \<and>
         map turnNumber (turns (fst (run_session fmt dumps xs s))) =
           [1 .. int (length (turns (fst (run_session fmt dumps xs s)))) -
                 turn_counter (fst (run_session fmt dumps xs s))] @
           [1 .. turn_counter (fst (run_session fmt dumps xs s))]"
  using assms
proof (induction xs arbitrary: s)
  case Nil
  then show ?case by simp
next
  case (Cons x xs)
  from run_step_numbering [OF Cons.prems, of fmt dumps x]
  have a: "0 \<le> turn_counter (fst (run_step fmt dumps x s))"
    and b: "turn_counter (fst (run_step fmt dumps x s)) \<le>
       int (length (turns (fst (run_step fmt dumps x s))))"
    and c: "map turnNumber (turns (fst (run_step fmt dumps x s))) =
           [1 .. int (length (turns (fst (run_step fmt dumps x s)))) -
                 turn_counter (fst (run_step fmt dumps x s))] @
           [1 .. turn_counter (fst (run_step fmt dumps x s))]"
    by simp_all
  from Cons.IH [OF a b c] show ?case
    by (simp only: run_session_Cons)
qed

lemma run_step_deliveries:
  "length (snd (run_step fmt dumps x s)) \<le> 1"
  "snd (run_step fmt dumps x s) \<noteq> [] \<Longrightarrow> saved (fst (run_step fmt dumps x s))"
  "saved s \<Longrightarrow> snd (run_step fmt dumps x s) = [] \<and> saved (fst (run_step fmt dumps x s))"
proof -
  show "length (snd (run_step fmt dumps x s)) \<le> 1"
    by (cases x) (simp_all add: save_call_data_def Let_def)
  show "snd (run_step fmt dumps x s) \<noteq> [] \<Longrightarrow> saved (fst (run_step fmt dumps x s))"
    by (cases x) (simp_all add: save_call_data_def Let_def split: if_splits)
  show "saved s \<Longrightarrow> snd (run_step fmt dumps x s) = [] \<and> saved (fst (run_step fmt dumps x s))"
    by (cases x)
      (simp_all add: save_call_data_def classify_frame update_intake_frame update_caller_frame
        complete_frame add_turn_frame extract_turns)
qed

lemma run_session_snd_Cons:
  "snd (run_session fmt dumps (x # xs) s) =
     snd (run_step fmt dumps x s) @ snd (run_session fmt dumps xs (fst (run_step fmt dumps x s)))"
  by (simp split: prod.splits)

lemma run_session_saved:
  "saved s \<Longrightarrow> snd (run_session fmt dumps xs s) = []"
proof (induction xs arbitrary: s)
  case Nil
  show ?case by simp
next
  case (Cons x xs)
  from run_step_deliveries(3) [OF Cons.prems, of fmt dumps x]
  have a: "snd (run_step fmt dumps x s) = []" and b: "saved (fst (run_step fmt dumps x s))"
    by simp_all
  show ?case
    unfolding run_session_snd_Cons a using Cons.IH [OF b] by simp
qed

lemma run_session_deliveries: "length (snd (run_session fmt dumps xs s)) \<le> 1"
proof (induction xs arbitrary: s)
  case Nil
  show ?case by simp
next
  case (Cons x xs)
  show ?case
  proof (cases "snd (run_step fmt dumps x s) = []")
    case True
    then show ?thesis
      unfolding run_session_snd_Cons using Cons.IH [of "fst (run_step fmt dumps x s)"] by simp
  next
    case False
    then have "saved (fst (run_step fmt dumps x s))"
      by (rule run_step_deliveries(2))
    then have "snd (run_session fmt dumps xs (fst (run_step fmt dumps x s))) = []"
      by (rule run_session_saved)
    then show ?thesis
      unfolding run_session_snd_Cons using run_step_deliveries(1) [of fmt dumps x s] by simp
  qed
qed

lemma backtick_not_space: "\<not> is_space CHR 0x60"
  by (simp add: is_space_def)

lemma strip_padding:
  assumes w1: "\<forall>c \<in> set w1. is_space c" and w2: "\<forall>c \<in> set w2. is_space c"
    and x: "x \<noteq> []" "\<not> is_space (hd x)" "\<not> is_space (last x)"
  shows "strip (w1 @ x @ w2) = x"
proof -
  obtain a as where xa: "x = a # as"
    using x(1) by (cases x) auto
  have front: "dropWhile is_space (w1 @ x @ w2) = x @ w2"
    using w1 x(2) xa by (simp add: dropWhile_append2)
  obtain bs b where xb: "x = bs @ [b]"
    using x(1) by (cases x rule: rev_cases) auto
  have "dropWhile is_space (rev (x @ w2)) = dropWhile is_space (rev w2 @ rev x)"
    by simp
  also have "\<dots> = dropWhile is_space (rev x)"
    by (rule dropWhile_append2) (use w2 in simp)
  also have "\<dots> = rev x"
    using x(3) xb by simp
  finally show ?thesis
    by (simp add: strip_def front)
qed

lemma after_fence_line:
  assumes "newline \<notin> set lang"
  shows "after_first_newline (''```'' @ lang @ [newline] @ rest) = rest"
proof -
  have "dropWhile (\<lambda>c. c \<noteq> newline) (lang @ newline # rest) =
      dropWhile (\<lambda>c. c \<noteq> newline) (newline # rest)"
    by (rule dropWhile_append2) (use assms in auto)
  then have "dropWhile (\<lambda>c. c \<noteq> newline) (lang @ newline # rest) = newline # rest"
    by simp
  then show ?thesis
    by (simp add: after_first_newline_def newline_def)
qed

lemma strip_fences_block:
  assumes w1: "\<forall>c \<in> set w1. is_space c" and w2: "\<forall>c \<in> set w2. is_space c"
    and lang: "newline \<notin> set lang"
  shows "strip_fences (w1 @ ''```'' @ lang @ [newline] @ p @ ''```'' @ w2) = strip p"
proof -
  let ?x = "''```'' @ lang @ [newline] @ p @ ''```''"
  have "strip (w1 @ ?x @ w2) = ?x"
    by (rule strip_padding [OF w1 w2]) (simp_all add: is_space_def)
  then have s: "strip (w1 @ ''```'' @ lang @ [newline] @ p @ ''```'' @ w2) = ?x"
    by simp
  have pre: "prefix ''```'' ?x"
    by simp
  have nl: "newline \<in> set ?x"
    by simp
  have rest: "after_first_newline ?x = p @ ''```''"
    using after_fence_line [OF lang, of "p @ ''```''"] by simp
  have suf: "suffix ''```'' (p @ ''```'')"
    by (rule suffix_appendI) simp
  have tk: "take (length (p @ ''```'') - 3) (p @ ''```'') = p"
    by simp
  show ?thesis
    unfolding strip_fences_def s Let_def using pre nl suf tk
    by (simp only: if_True rest)
qed

lemma strip_fences_inline:
  assumes w1: "\<forall>c \<in> set w1. is_space c" and w2: "\<forall>c \<in> set w2. is_space c"
    and p: "newline \<notin> set p"
  shows "strip_fences (w1 @ ''```'' @ p @ ''```'' @ w2) = strip p"
proof -
  let ?x = "''```'' @ p @ ''```''"
  have "strip (w1 @ ?x @ w2) = ?x"
    by (rule strip_padding [OF w1 w2]) (simp_all add: is_space_def)
  then have s: "strip (w1 @ ''```'' @ p @ ''```'' @ w2) = ?x"
    by simp
  have pre: "prefix ''```'' ?x"
    by simp
  have nl: "newline \<notin> set ?x"
    using p by (simp add: newline_def)
  have rest: "drop 3 ?x = p @ ''```''"
    by simp
  have suf: "suffix ''```'' (p @ ''```'')"
    by (rule suffix_appendI) simp
  have tk: "take (length (p @ ''```'') - 3) (p @ ''```'') = p"
    by simp
  show ?thesis
    unfolding strip_fences_def s Let_def using pre nl suf tk
    by (simp only: if_True if_False rest)
qed

lemma strip_keeps_nonspace: "\<not> is_space c \<Longrightarrow> strip (c # s) \<noteq> []"
proof -
  assume c: "\<not> is_space c"
  have "dropWhile is_space (rev s @ [c]) \<noteq> []"
    using c by (simp add: dropWhile_append)
  then show ?thesis
    using c by (simp add: strip_def)
qed

lemma strip_Nil [simp]: "strip [] = []"
  by (simp add: strip_def)

lemma transcript_line_head:
  "\<exists>c rest. transcript_line fmt t = c # rest \<and> \<not> is_space c"
  by (simp add: transcript_line_def is_space_def)

lemma join_Cons: "join sep (x # xs) = x @ (if xs = [] then [] else sep @ join sep xs)"
  by (cases xs) simp_all

lemma transcript_blank:
  "(strip (transcript fmt ts) = []) = (ts = [])"
  "(transcript fmt ts = []) = (ts = [])"
proof -
  have ne: "strip (transcript fmt (t # ts')) \<noteq> [] \<and> transcript fmt (t # ts') \<noteq> []" for t ts'
  proof -
    obtain c rest where l: "transcript_line fmt t = c # rest" and c: "\<not> is_space c"
      using transcript_line_head by blast
    have "transcript fmt (t # ts') =
        c # (rest @ (if map (transcript_line fmt) ts' = [] then []
                     else [newline] @ join [newline] (map (transcript_line fmt) ts')))"
      by (simp add: transcript_def join_Cons l del: join.simps)
    then show ?thesis
      using strip_keeps_nonspace [OF c] by simp
  qed
  show "(strip (transcript fmt ts) = []) = (ts = [])"
    using ne by (cases ts) (simp_all add: transcript_def)
  show "(transcript fmt ts = []) = (ts = [])"
    using ne by (cases ts) (simp_all add: transcript_def)
qed

lemma intake_empty_iff:
  "(intake_empty d = Inr True) =
     (\<not> truthy d \<or> (\<exists>m. d = JObj m \<and> (\<forall>kv \<in> set m. snd kv = JStr [])))"
  by (cases d) (auto simp: intake_empty_def list_all_iff)

lemma turn_backfill_keeps [simp]:
  "intake_data (turn_backfill msgs s) = intake_data s"
  "call_type (turn_backfill msgs s) = call_type s"
  "caller_name (turn_backfill msgs s) = caller_name s"
  "caller_email (turn_backfill msgs s) = caller_email s"
  "caller_address (turn_backfill msgs s) = caller_address s"
  "summary (turn_backfill msgs s) = summary s"
  by (simp_all add: turn_backfill_def)

lemma intake_backfill_calls:
  "fst (snd (intake_backfill fmt pce s)) =
     (if intake_empty (intake_data s) = Inr True \<and> turns s \<noteq> []
      then [ExtractionCall (transcript fmt (turns s))
              (if truthy (call_type s) then call_type s else JStr ''unknown'')]
      else [])"
  by (simp add: intake_backfill_def Let_def transcript_blank
      split: sum.splits bool.splits json.splits)

lemma extract_calls:
  "filter is_extraction (snd (extract_from_context fmt pce gs msgs s)) =
     fst (snd (intake_backfill fmt pce (turn_backfill msgs s)))"
proof -
  obtain s2 fx e where r: "intake_backfill fmt pce (turn_backfill msgs s) = (s2, fx, e)"
    by (cases "intake_backfill fmt pce (turn_backfill msgs s)") auto
  have "fx = fst (snd (intake_backfill fmt pce (turn_backfill msgs s)))"
    by (simp add: r)
  then have "filter is_extraction fx = fx"
    unfolding intake_backfill_calls by simp
  then show ?thesis
    by (simp add: extract_from_context_def r split: option.splits)
qed

lemma intake_backfill_success:
  assumes "intake_empty (intake_data s) = Inr True" and "turns s \<noteq> []"
    and "pce (transcript fmt (turns s))
           (if truthy (call_type s) then call_type s else JStr ''unknown'') = JObj x"
    and "x \<noteq> []"
  shows "fst (intake_backfill fmt pce s) = apply_extracted s x"
    and "snd (snd (intake_backfill fmt pce s)) = None"
  using assms by (simp_all add: intake_backfill_def Let_def transcript_blank)

lemma extract_success:
  assumes "intake_empty (intake_data s) = Inr True" and "turns (turn_backfill msgs s) \<noteq> []"
    and "pce (transcript fmt (turns (turn_backfill msgs s)))
           (if truthy (call_type s) then call_type s else JStr ''unknown'') = JObj x"
    and "x \<noteq> []"
  shows "\<exists>sm. fst (extract_from_context fmt pce gs msgs s) =
           (apply_extracted (turn_backfill msgs s) x)\<lparr>summary := sm\<rparr>"
proof -
  let ?s1 = "turn_backfill msgs s"
  obtain s2 fx e where r: "intake_backfill fmt pce ?s1 = (s2, fx, e)"
    by (cases "intake_backfill fmt pce ?s1") auto
  have e1: "intake_empty (intake_data ?s1) = Inr True"
    using assms(1) by simp
  have p: "pce (transcript fmt (turns ?s1))
      (if truthy (call_type ?s1) then call_type ?s1 else JStr ''unknown'') = JObj x"
    unfolding turn_backfill_keeps by (rule assms(3))
  have "fst (intake_backfill fmt pce ?s1) = apply_extracted ?s1 x"
    and "snd (snd (intake_backfill fmt pce ?s1)) = None"
    by (rule intake_backfill_success
        [where s = "turn_backfill msgs s" and pce = pce and fmt = fmt and x = x,
         OF e1 assms(2) p assms(4)])+
  then have s2: "s2 = apply_extracted ?s1 x" and e: "e = None"
    by (simp_all add: r)
  have "fst (extract_from_context fmt pce gs msgs s) = s2 \<or>
      fst (extract_from_context fmt pce gs msgs s) = s2\<lparr>summary := gs (transcript fmt (turns s2))\<rparr>"
    by (simp add: extract_from_context_def r e)
  moreover have "s2 = s2\<lparr>summary := summary s2\<rparr>"
    by simp
  ultimately show ?thesis
    unfolding s2 by metis
qed

lemma intake_backfill_no_result:
  assumes "\<not> truthy (pce (transcript fmt (turns s))
           (if truthy (call_type s) then call_type s else JStr ''unknown''))"
  shows "fst (intake_backfill fmt pce s) = s"
proof (cases "intake_empty (intake_data s)")
  case (Inl e)
  then show ?thesis by (simp add: intake_backfill_def)
next
  case (Inr b)
  show ?thesis
  proof (cases b)
    case False
    then show ?thesis using Inr by (simp add: intake_backfill_def)
  next
    case True
    show ?thesis
    proof (cases "strip (transcript fmt (turns s)) = []")
      case True
      then show ?thesis using Inr \<open>b\<close> by (simp add: intake_backfill_def)
    next
      case False
      then show ?thesis
        using Inr \<open>b\<close> assms by (simp add: intake_backfill_def Let_def)
    qed
  qed
qed

lemma extract_no_result:
  assumes "\<not> truthy (pce (transcript fmt (turns (turn_backfill msgs s)))
           (if truthy (call_type s) then call_type s else JStr ''unknown''))"
  shows "intake_data (fst (extract_from_context fmt pce gs msgs s)) = intake_data s"
proof -
  let ?s1 = "turn_backfill msgs s"
  obtain s2 fx e where r: "intake_backfill fmt pce ?s1 = (s2, fx, e)"
    by (cases "intake_backfill fmt pce ?s1") auto
  have p: "\<not> truthy (pce (transcript fmt (turns ?s1))
      (if truthy (call_type ?s1) then call_type ?s1 else JStr ''unknown''))"
    unfolding turn_backfill_keeps by (rule assms)
  have "fst (intake_backfill fmt pce ?s1) = ?s1"
    by (rule intake_backfill_no_result
        [where s = "turn_backfill msgs s" and pce = pce and fmt = fmt, OF p])
  then have "s2 = ?s1"
    by (simp add: r)
  then show ?thesis
    by (simp add: extract_from_context_def r split: option.splits)
qed

lemma apply_extracted_contact:
  "caller_name (apply_extracted s x) =
     (if truthy (dict_get x ''callerName'' JNull)
      then dict_get x ''callerName'' JNull else caller_name s)"
  "caller_email (apply_extracted s x) =
     (if truthy (dict_get x ''callerEmail'' JNull)
      then dict_get x ''callerEmail'' JNull else caller_email s)"
  "caller_address (apply_extracted s x) =
     (if truthy (dict_get x ''callerAddress'' JNull)
      then dict_get x ''callerAddress'' JNull else caller_address s)"
  "call_type (apply_extracted s x) =
     (if \<not> truthy (call_type s) \<or> call_type s = JStr ''unknown''
      then dict_get x ''callType'' (call_type s) else call_type s)"
  "intake_data (apply_extracted s x) = dict_get x ''fields'' (JObj [])"
  by (auto simp: apply_extracted_def Let_def)

section \<open>Classification\<close>

text \<open>
  Claim C7. When \<^verbatim>\<open>classify_call\<close> is invoked with call type \<^verbatim>\<open>emergency\<close>, the handler
  sets the call type and returns at once: \<^verbatim>\<open>intake_data\<close> is exactly what it was (no
  field is pre-seeded, and nothing else of the state changes), and the string handed back
  is the emergency directive, which tells the model to give immediate safety instructions
  and to assure the caller that a technician will call back within 15 minutes.
\<close>

theorem classify_emergency_leaves_intake:
  assumes "map_of args ''call_type'' = Some (JStr ''emergency'')"
  shows "handle_classify_call fmt s args =
           (s\<lparr>call_type := JStr ''emergency''\<rparr>, Inr emergency_directive) \<and>
         intake_data (fst (handle_classify_call fmt s args)) = intake_data s \<and>
         sublist ''Provide immediate safety instructions'' emergency_directive \<and>
         sublist ''a technician will call back within 15 minutes'' emergency_directive"
proof -
  have ct: "dict_get args ''call_type'' (JStr ''general'') = JStr ''emergency''"
    using assms by (simp add: dict_get_def)
  have r: "handle_classify_call fmt s args =
      (s\<lparr>call_type := JStr ''emergency''\<rparr>, Inr emergency_directive)"
    by (simp add: handle_classify_call_def ct Let_def)
  have "emergency_directive =
      ''Call classified as emergency. '' @ ''Provide immediate safety instructions'' @
      '' and assure the caller a technician will call back within 15 minutes.''"
    by (simp add: emergency_directive_def)
  then have safety: "sublist ''Provide immediate safety instructions'' emergency_directive"
    by (metis sublist_appendI)
  show ?thesis
    using r safety directive_promises_callback by simp
qed

theorem classify_emergency_leaves_intake_witness:
  "map_of [(''call_type'', JStr ''emergency'')] ''call_type'' = Some (JStr ''emergency'') \<and>
   handle_classify_call (\<lambda>v. []) demo_state [(''call_type'', JStr ''emergency'')] =
     (demo_state\<lparr>call_type := JStr ''emergency''\<rparr>, Inr emergency_directive) \<and>
   intake_data (fst (handle_classify_call (\<lambda>v. []) demo_state [(''call_type'', JStr ''emergency'')])) =
     JObj [(''buildingType'', JStr ''office'')]"
proof -
  have h: "map_of [(''call_type'', JStr ''emergency'')] ''call_type'' = Some (JStr ''emergency'')"
    by simp
  show ?thesis
    using h classify_emergency_leaves_intake [OF h, of "\<lambda>v. []" demo_state]
    by (simp add: demo_state_def)
qed

text \<open>
  Claim C5. For every call type with a registry entry (\<^verbatim>\<open>design\<close>, \<^verbatim>\<open>service\<close>,
  \<^verbatim>\<open>quote\<close>; none of them is \<^verbatim>\<open>emergency\<close>) and every state whose \<^verbatim>\<open>intake_data\<close> is a
  dict, \<^verbatim>\<open>classify_call\<close> sets the call type, hands back the directive to start
  collecting, and leaves an \<^verbatim>\<open>intake_data\<close> in which every field key of the entry is
  present, every key bound before keeps its value, and every key not bound before is
  bound to the empty string if it is a field key of the entry and stays unbound otherwise.
  Classifying a fresh state as \<^verbatim>\<open>design\<close> yields exactly the eight design keys, in
  registry order, each bound to the empty string.
\<close>

theorem classify_preseeds_registry_fields:
  assumes reg: "map_of CALL_TYPE_FIELDS ct = Some fs"
    and arg: "map_of args ''call_type'' = Some (JStr ct)"
    and dict: "intake_data s = JObj m"
  shows "(\<exists>m'. handle_classify_call fmt s args =
            (s\<lparr>call_type := JStr ct, intake_data := JObj m'\<rparr>,
             Inr (''Call classified as '' @ ct @
                  ''. Now begin collecting the intake information by asking about the first required field.'')) \<and>
          (\<forall>f \<in> set fs. key f \<in> fst ` set m') \<and>
          (\<forall>k v. map_of m k = Some v \<longrightarrow> map_of m' k = Some v) \<and>
          (\<forall>k. map_of m k = None \<longrightarrow>
             map_of m' k = (if k \<in> key ` set fs then Some (JStr []) else None))) \<and>
         intake_data (fst (handle_classify_call fmt (CallState sid number dir c0 n0)
             [(''call_type'', JStr ''design'')])) =
           JObj [(''buildingType'', JStr []), (''buildingSize'', JStr []), (''location'', JStr []),
                 (''projectGoals'', JStr []), (''timeline'', JStr []), (''budget'', JStr []),
                 (''existingSystem'', JStr []), (''specialRequirements'', JStr [])]"
proof -
  have ct: "dict_get args ''call_type'' (JStr ''general'') = JStr ct"
    using arg by (simp add: dict_get_def)
  have ne: "ct \<noteq> ''emergency''"
    using reg by (rule registry_not_emergency)
  from seed_fields_dict [of fs m] obtain m' where
    seed: "seed_fields fs (JObj m) = (JObj m', None)" and
    look: "\<forall>k. map_of m' k =
           (case map_of m k of Some v \<Rightarrow> Some v
            | None \<Rightarrow> if k \<in> key ` set fs then Some (JStr []) else None)"
    by blast
  have run: "handle_classify_call fmt s args =
            (s\<lparr>call_type := JStr ct, intake_data := JObj m'\<rparr>,
             Inr (''Call classified as '' @ ct @
                  ''. Now begin collecting the intake information by asking about the first required field.''))"
    using ct ne reg dict seed by (simp add: handle_classify_call_def Let_def)
  have present: "\<forall>f \<in> set fs. key f \<in> fst ` set m'"
  proof
    fix f assume "f \<in> set fs"
    then have "map_of m' (key f) \<noteq> None"
      using look by (auto split: option.splits)
    then show "key f \<in> fst ` set m'"
      by (simp add: map_of_eq_None_iff)
  qed
  have kept: "\<forall>k v. map_of m k = Some v \<longrightarrow> map_of m' k = Some v"
    using look by simp
  have added: "\<forall>k. map_of m k = None \<longrightarrow>
             map_of m' k = (if k \<in> key ` set fs then Some (JStr []) else None)"
    using look by simp
  have fresh: "intake_data (fst (handle_classify_call fmt (CallState sid number dir c0 n0)
             [(''call_type'', JStr ''design'')])) =
           JObj [(''buildingType'', JStr []), (''buildingSize'', JStr []), (''location'', JStr []),
                 (''projectGoals'', JStr []), (''timeline'', JStr []), (''budget'', JStr []),
                 (''existingSystem'', JStr []), (''specialRequirements'', JStr [])]"
    by (simp add: handle_classify_call_def dict_get_def CallState_def CALL_TYPE_FIELDS_def
        DESIGN_FIELDS_def mk_field_def Let_def)
  from run present kept added fresh show ?thesis by blast
qed

theorem classify_preseeds_registry_fields_witness:
  "map_of CALL_TYPE_FIELDS ''service'' = Some SERVICE_FIELDS \<and>
   map_of [(''call_type'', JStr ''service'')] ''call_type'' = Some (JStr ''service'') \<and>
   (\<exists>m'. intake_data (fst (handle_classify_call (\<lambda>v. [])
       (demo_state\<lparr>intake_data := JObj [(''location'', JStr ''Surrey'')]\<rparr>)
       [(''call_type'', JStr ''service'')])) = JObj m' \<and>
      map_of m' ''location'' = Some (JStr ''Surrey'') \<and>
      map_of m' ''systemType'' = Some (JStr []) \<and>
      map_of m' ''makeModel'' = Some (JStr []) \<and>
      map_of m' ''budget'' = None)"
proof -
  let ?s = "demo_state\<lparr>intake_data := JObj [(''location'', JStr ''Surrey'')]\<rparr>"
  have h1: "map_of CALL_TYPE_FIELDS ''service'' = Some SERVICE_FIELDS"
    by (simp add: CALL_TYPE_FIELDS_def)
  have h2: "map_of [(''call_type'', JStr ''service'')] ''call_type'' = Some (JStr ''service'')"
    by simp
  have h3: "intake_data ?s = JObj [(''location'', JStr ''Surrey'')]"
    by simp
  note t = classify_preseeds_registry_fields
    [OF h1 h2 h3, where fmt = "\<lambda>v. []" and sid = "[]" and number = "[]" and dir = "[]"
       and ?c0.0 = JNull and ?n0.0 = JNull]
  from t obtain m' where
    run: "handle_classify_call (\<lambda>v. []) ?s [(''call_type'', JStr ''service'')] =
            (?s\<lparr>call_type := JStr ''service'', intake_data := JObj m'\<rparr>,
             Inr (''Call classified as '' @ ''service'' @
                  ''. Now begin collecting the intake information by asking about the first required field.''))"
    and kept: "\<forall>k v. map_of [(''location'', JStr ''Surrey'')] k = Some v \<longrightarrow> map_of m' k = Some v"
    and added: "\<forall>k. map_of [(''location'', JStr ''Surrey'')] k = None \<longrightarrow>
             map_of m' k = (if k \<in> key ` set SERVICE_FIELDS then Some (JStr []) else None)"
    by blast
  have a: "intake_data (fst (handle_classify_call (\<lambda>v. []) ?s [(''call_type'', JStr ''service'')])) =
      JObj m'"
    unfolding run by simp
  have b: "map_of m' ''location'' = Some (JStr ''Surrey'')"
    using kept by simp
  have keys: "key ` set SERVICE_FIELDS =
      {''systemType'', ''systemAge'', ''symptoms'', ''urgency'', ''location'',
       ''siteConstraints'', ''makeModel''}"
    by (simp add: SERVICE_FIELDS_def mk_field_def)
  have c: "map_of m' ''systemType'' = Some (JStr [])"
    using added [rule_format, of "''systemType''"] by (simp add: keys)
  have d: "map_of m' ''makeModel'' = Some (JStr [])"
    using added [rule_format, of "''makeModel''"] by (simp add: keys)
  have e: "map_of m' ''budget'' = None"
    using added [rule_format, of "''budget''"] by (simp add: keys)
  from h1 h2 a b c d e show ?thesis by blast
qed

section \<open>Intake updates\<close>

text \<open>
  Claim C6. For every state whose \<^verbatim>\<open>intake_data\<close> is a dict and every dict submitted as
  \<^verbatim>\<open>fields\<close>, \<^verbatim>\<open>update_intake_fields\<close> changes nothing of the state but \<^verbatim>\<open>intake_data\<close>,
  and afterwards each key reads as follows: the submitted value if the key was submitted
  with a value that is true in Python (for a string: non-empty), and the value stored
  before otherwise. So a non-empty string is stored over any earlier value, an empty
  string never replaces what was stored, and no lookup of the active schema takes part:
  a key outside it is stored like any other.
\<close>

theorem update_intake_stores_nonempty:
  assumes arg: "map_of args ''fields'' = Some (JObj kvs)"
    and dist: "distinct (map fst kvs)"
    and dict: "intake_data s = JObj m"
  shows "\<exists>m'. fst (handle_update_intake s args) = s\<lparr>intake_data := JObj m'\<rparr> \<and>
          (\<forall>k. map_of m' k =
             (case map_of kvs k of
                Some v \<Rightarrow> if truthy v then Some v else map_of m k
              | None \<Rightarrow> map_of m k)) \<and>
          (\<forall>k v. map_of kvs k = Some (JStr v) \<and> v \<noteq> [] \<longrightarrow> map_of m' k = Some (JStr v)) \<and>
          (\<forall>k. map_of kvs k = Some (JStr []) \<longrightarrow> map_of m' k = map_of m k)"
proof -
  have flds: "dict_get args ''fields'' (JObj []) = JObj kvs"
    using arg by (simp add: dict_get_def)
  from store_fields_dict [OF dist, of m] obtain m' where
    st: "store_fields kvs (JObj m) = (JObj m', None)" and
    look: "\<forall>k. map_of m' k =
           (case map_of kvs k of
              Some v \<Rightarrow> if truthy v then Some v else map_of m k
            | None \<Rightarrow> map_of m k)"
    by blast
  have "fst (handle_update_intake s args) = s\<lparr>intake_data := JObj m'\<rparr>"
    using flds st dict
    by (simp add: handle_update_intake_def Let_def split: sum.splits)
  moreover have "\<forall>k v. map_of kvs k = Some (JStr v) \<and> v \<noteq> [] \<longrightarrow> map_of m' k = Some (JStr v)"
    using look by simp
  moreover have "\<forall>k. map_of kvs k = Some (JStr []) \<longrightarrow> map_of m' k = map_of m k"
    using look by simp
  ultimately show ?thesis using look by blast
qed

theorem update_intake_stores_nonempty_witness:
  "map_of [(''fields'', JObj [(''buildingType'', JStr ''warehouse''), (''location'', JStr []),
                             (''parking'', JStr ''rear lot'')])] ''fields'' =
     Some (JObj [(''buildingType'', JStr ''warehouse''), (''location'', JStr []),
                 (''parking'', JStr ''rear lot'')]) \<and>
   distinct (map fst [(''buildingType'', JStr ''warehouse''), (''location'', JStr []),
                      (''parking'', JStr ''rear lot'')]) \<and>
   (\<exists>m'. intake_data (fst (handle_update_intake
      (demo_state\<lparr>intake_data :=
         JObj [(''buildingType'', JStr ''office''), (''location'', JStr ''Surrey'')]\<rparr>)
      [(''fields'', JObj [(''buildingType'', JStr ''warehouse''), (''location'', JStr []),
                         (''parking'', JStr ''rear lot'')])])) = JObj m' \<and>
      map_of m' ''buildingType'' = Some (JStr ''warehouse'') \<and>
      map_of m' ''location'' = Some (JStr ''Surrey'') \<and>
      map_of m' ''parking'' = Some (JStr ''rear lot''))"
proof -
  let ?kvs = "[(''buildingType'', JStr ''warehouse''), (''location'', JStr []),
               (''parking'', JStr ''rear lot'')]"
  let ?m = "[(''buildingType'', JStr ''office''), (''location'', JStr ''Surrey'')]"
  have h1: "map_of [(''fields'', JObj ?kvs)] ''fields'' = Some (JObj ?kvs)"
    by simp
  have h2: "distinct (map fst ?kvs)"
    by simp
  have h3: "intake_data (demo_state\<lparr>intake_data := JObj ?m\<rparr>) = JObj ?m"
    by simp
  from update_intake_stores_nonempty [OF h1 h2 h3] obtain m' where
    st: "fst (handle_update_intake (demo_state\<lparr>intake_data := JObj ?m\<rparr>)
           [(''fields'', JObj ?kvs)]) = demo_state\<lparr>intake_data := JObj ?m, intake_data := JObj m'\<rparr>"
    and look: "\<forall>k. map_of m' k =
             (case map_of ?kvs k of
                Some v \<Rightarrow> if truthy v then Some v else map_of ?m k
              | None \<Rightarrow> map_of ?m k)"
    by blast
  have a: "intake_data (fst (handle_update_intake (demo_state\<lparr>intake_data := JObj ?m\<rparr>)
           [(''fields'', JObj ?kvs)])) = JObj m'"
    by (simp add: st)
  have b: "map_of m' ''buildingType'' = Some (JStr ''warehouse'')"
    by (simp add: look)
  have c: "map_of m' ''location'' = Some (JStr ''Surrey'')"
    by (simp add: look)
  have d: "map_of m' ''parking'' = Some (JStr ''rear lot'')"
    by (simp add: look)
  from h1 h2 a b c d show ?thesis by blast
qed

text \<open>
  Claim C1, as amended. The status string of \<^verbatim>\<open>update_intake_fields\<close> is computed over
  every field of the active schema, required and optional alike. For every state whose
  \<^verbatim>\<open>intake_data\<close> is a dict and whose call type can be looked up in the registry, it
  reads: the number of submitted keys, the number of required fields with a stored value
  that is true in Python (for a string: non-empty) over the number of required fields,
  and then either \<^verbatim>\<open>Still needed:\<close> with the labels, in registry order, of exactly the
  fields of the schema (required or optional) that lack such a value, or, when no field
  of the schema lacks one, the directive that all fields are collected and a summary is
  to be read back and confirmed.
\<close>

theorem update_intake_status_names_all_missing:
  assumes arg: "map_of args ''fields'' = Some (JObj kvs)"
    and dict: "intake_data s = JObj m"
    and reg: "registry_get (call_type s) = Inr all_fields"
  shows "\<exists>m'. intake_data (fst (handle_update_intake s args)) = JObj m' \<and>
     snd (handle_update_intake s args) =
       Inr (''Updated '' @ show_nat (length kvs) @ '' field(s). '' @
            show_nat (length (filter (\<lambda>f. required f \<and> truthy (dict_get m' (key f) JNull)) all_fields)) @
            ''/'' @ show_nat (length (filter required all_fields)) @
            '' required fields collected.'' @
            (if \<forall>f \<in> set all_fields. truthy (dict_get m' (key f) JNull)
             then '' All fields collected! Read back a summary and ask the caller to confirm.''
             else '' Still needed: '' @
                  join '', '' (map label (filter (\<lambda>f. \<not> truthy (dict_get m' (key f) JNull)) all_fields)) @
                  ''.''))"
proof -
  have flds: "dict_get args ''fields'' (JObj []) = JObj kvs"
    using arg by (simp add: dict_get_def)
  from store_fields_total [of kvs m] obtain m' where
    st: "store_fields kvs (JObj m) = (JObj m', None)"
    by blast
  have pop: "filter_exn (populated (JObj m')) (filter required all_fields) =
      Inr (filter (\<lambda>f. truthy (dict_get m' (key f) JNull)) (filter required all_fields))"
    by (rule filter_exn_total) (simp add: populated_def)
  have mis: "filter_exn (missing (JObj m')) all_fields =
      Inr (filter (\<lambda>f. \<not> truthy (dict_get m' (key f) JNull)) all_fields)"
    by (rule filter_exn_total) (simp add: missing_def)
  have run: "handle_update_intake s args =
      (s\<lparr>intake_data := JObj m'\<rparr>,
       Inr (status_text (length kvs)
            (filter (\<lambda>f. truthy (dict_get m' (key f) JNull)) (filter required all_fields))
            (filter required all_fields)
            (filter (\<lambda>f. \<not> truthy (dict_get m' (key f) JNull)) all_fields)))"
    using flds st dict reg pop mis by (simp add: handle_update_intake_def Let_def)
  have col: "filter (\<lambda>f. truthy (dict_get m' (key f) JNull)) (filter required all_fields) =
      filter (\<lambda>f. required f \<and> truthy (dict_get m' (key f) JNull)) all_fields"
    by (simp add: conj_commute)
  have "intake_data (fst (handle_update_intake s args)) = JObj m'"
    using run by simp
  moreover have "snd (handle_update_intake s args) =
       Inr (''Updated '' @ show_nat (length kvs) @ '' field(s). '' @
            show_nat (length (filter (\<lambda>f. required f \<and> truthy (dict_get m' (key f) JNull)) all_fields)) @
            ''/'' @ show_nat (length (filter required all_fields)) @
            '' required fields collected.'' @
            (if \<forall>f \<in> set all_fields. truthy (dict_get m' (key f) JNull)
             then '' All fields collected! Read back a summary and ask the caller to confirm.''
             else '' Still needed: '' @
                  join '', '' (map label (filter (\<lambda>f. \<not> truthy (dict_get m' (key f) JNull)) all_fields)) @
                  ''.''))"
    unfolding run snd_conv status_text_def col all_collected_directive_def
      filter_empty_iff_all [symmetric]
    by simp
  ultimately show ?thesis by blast
qed

theorem update_intake_status_names_all_missing_witness:
  "map_of [(''fields'', JObj [(''timeline'', JStr ''spring'')])] ''fields'' =
     Some (JObj [(''timeline'', JStr ''spring'')]) \<and>
   registry_get (call_type design_state) = Inr DESIGN_FIELDS \<and>
   snd (handle_update_intake design_state [(''fields'', JObj [(''timeline'', JStr ''spring'')])]) =
     Inr ''Updated 1 field(s). 5/5 required fields collected. Still needed: Budget Range, Existing System, Special Requirements.''"
proof -
  let ?args = "[(''fields'', JObj [(''timeline'', JStr ''spring'')])]"
  let ?after = "[(''buildingType'', JStr ''office''), (''buildingSize'', JStr ''5000''),
         (''location'', JStr ''Surrey''), (''projectGoals'', JStr ''heat pump retrofit''),
         (''timeline'', JStr ''spring''), (''budget'', JStr []), (''existingSystem'', JStr []),
         (''specialRequirements'', JStr [])]"
  have h1: "map_of ?args ''fields'' = Some (JObj [(''timeline'', JStr ''spring'')])"
    by simp
  have h2: "intake_data design_state = JObj
        [(''buildingType'', JStr ''office''), (''buildingSize'', JStr ''5000''),
         (''location'', JStr ''Surrey''), (''projectGoals'', JStr ''heat pump retrofit''),
         (''timeline'', JStr []), (''budget'', JStr []), (''existingSystem'', JStr []),
         (''specialRequirements'', JStr [])]"
    by (simp add: design_state_def)
  have h3: "registry_get (call_type design_state) = Inr DESIGN_FIELDS"
    by (simp add: design_state_def CallState_def CALL_TYPE_FIELDS_def)
  have ev: "intake_data (fst (handle_update_intake design_state ?args)) = JObj ?after"
    by (simp add: handle_update_intake_def design_state_def dict_get_def Let_def
        split: sum.splits)
  from update_intake_status_names_all_missing [OF h1 h2 h3] obtain m' where
    a: "intake_data (fst (handle_update_intake design_state ?args)) = JObj m'" and
    b: "snd (handle_update_intake design_state ?args) =
       Inr (''Updated '' @ show_nat (length [(''timeline'', JStr ''spring'')]) @ '' field(s). '' @
            show_nat (length (filter (\<lambda>f. required f \<and> truthy (dict_get m' (key f) JNull)) DESIGN_FIELDS)) @
            ''/'' @ show_nat (length (filter required DESIGN_FIELDS)) @
            '' required fields collected.'' @
            (if \<forall>f \<in> set DESIGN_FIELDS. truthy (dict_get m' (key f) JNull)
             then '' All fields collected! Read back a summary and ask the caller to confirm.''
             else '' Still needed: '' @
                  join '', '' (map label (filter (\<lambda>f. \<not> truthy (dict_get m' (key f) JNull)) DESIGN_FIELDS)) @
                  ''.''))"
    by blast
  from a ev have m': "m' = ?after" by simp
  have "snd (handle_update_intake design_state ?args) =
     Inr ''Updated 1 field(s). 5/5 required fields collected. Still needed: Budget Range, Existing System, Special Requirements.''"
    unfolding b m'
    by (simp add: DESIGN_FIELDS_def mk_field_def dict_get_def show_nat_1 show_nat_5)
  with h1 h3 show ?thesis by blast
qed

text \<open>
  Claim C1 as stated (only required fields are named, and the directive is returned once
  the required fields are populated) fails on a design call whose five required fields
  are populated and whose three optional fields are empty: the three optional labels are
  listed as still needed, and the directive is not returned.
\<close>

theorem update_intake_status_counterexample:
  "snd (handle_update_intake design_state [(''fields'', JObj [(''timeline'', JStr ''spring'')])]) =
     Inr ''Updated 1 field(s). 5/5 required fields collected. Still needed: Budget Range, Existing System, Special Requirements.'' \<and>
   list_all (\<lambda>f. truthy (dict_get
       [(''buildingType'', JStr ''office''), (''buildingSize'', JStr ''5000''),
        (''location'', JStr ''Surrey''), (''projectGoals'', JStr ''heat pump retrofit''),
        (''timeline'', JStr ''spring''), (''budget'', JStr []), (''existingSystem'', JStr []),
        (''specialRequirements'', JStr [])] (key f) JNull)) (filter required DESIGN_FIELDS) \<and>
   intake_data (fst (handle_update_intake design_state
       [(''fields'', JObj [(''timeline'', JStr ''spring'')])])) =
     JObj [(''buildingType'', JStr ''office''), (''buildingSize'', JStr ''5000''),
        (''location'', JStr ''Surrey''), (''projectGoals'', JStr ''heat pump retrofit''),
        (''timeline'', JStr ''spring''), (''budget'', JStr []), (''existingSystem'', JStr []),
        (''specialRequirements'', JStr [])]"
  by (simp add: handle_update_intake_def design_state_def CallState_def dict_get_def
      CALL_TYPE_FIELDS_def DESIGN_FIELDS_def mk_field_def populated_def missing_def
      status_text_def show_nat_1 show_nat_5 Let_def)

section \<open>Caller contact information\<close>

text \<open>
  Claim C10. For every state and every argument dict, \<^verbatim>\<open>update_caller_info\<close> changes
  nothing of the state but caller name, email and address, and each of the three becomes
  the argument if the argument is present and true in Python (for a string: non-empty)
  and stays what it was otherwise. So an absent argument leaves the stored value
  untouched, a stored value that is known stays known, and the invocation with no
  argument at all gives back the state it was given.
\<close>

theorem update_caller_merges_present:
  "fst (handle_update_caller s args) =
     s\<lparr>caller_name := (if truthy (dict_get args ''name'' JNull)
                        then dict_get args ''name'' JNull else caller_name s),
       caller_email := (if truthy (dict_get args ''email'' JNull)
                         then dict_get args ''email'' JNull else caller_email s),
       caller_address := (if truthy (dict_get args ''address'' JNull)
                           then dict_get args ''address'' JNull else caller_address s)\<rparr> \<and>
   (map_of args ''name'' = None \<longrightarrow>
      caller_name (fst (handle_update_caller s args)) = caller_name s) \<and>
   (map_of args ''email'' = None \<longrightarrow>
      caller_email (fst (handle_update_caller s args)) = caller_email s) \<and>
   (map_of args ''address'' = None \<longrightarrow>
      caller_address (fst (handle_update_caller s args)) = caller_address s) \<and>
   (truthy (caller_name s) \<longrightarrow> truthy (caller_name (fst (handle_update_caller s args)))) \<and>
   (truthy (caller_email s) \<longrightarrow> truthy (caller_email (fst (handle_update_caller s args)))) \<and>
   (truthy (caller_address s) \<longrightarrow> truthy (caller_address (fst (handle_update_caller s args)))) \<and>
   fst (handle_update_caller s []) = s"
  by (simp add: handle_update_caller_def dict_get_def Let_def)

theorem update_caller_merges_present_witness:
  "map_of [(''email'', JStr ''ann@work.example''), (''address'', JStr [])] ''name'' = None \<and>
   truthy (caller_address demo_state) \<and>
   caller_name (fst (handle_update_caller demo_state
      [(''email'', JStr ''ann@work.example''), (''address'', JStr [])])) = JStr ''Ann'' \<and>
   caller_email (fst (handle_update_caller demo_state
      [(''email'', JStr ''ann@work.example''), (''address'', JStr [])])) = JStr ''ann@work.example'' \<and>
   caller_address (fst (handle_update_caller demo_state
      [(''email'', JStr ''ann@work.example''), (''address'', JStr [])])) = JStr ''12 Main St''"
  using update_caller_merges_present
    [of demo_state "[(''email'', JStr ''ann@work.example''), (''address'', JStr [])]"]
  by (simp add: demo_state_def CallState_def dict_get_def)

section \<open>Turn numbering\<close>

text \<open>
  Claim C8, as amended. \<^verbatim>\<open>add_turn\<close> numbers with the state's \<^verbatim>\<open>turn_counter\<close>; turn
  backfill runs only on an empty turn list, numbers with a counter of its own and leaves
  \<^verbatim>\<open>turn_counter\<close> as it is. So in every state reached from a fresh one by any session of
  handlers, \<^verbatim>\<open>add_turn\<close> calls, reconciliations and saves, the turn list is the turns
  reconstructed by backfill, numbered 1, 2, ... up to their count, followed by the turns
  appended by \<^verbatim>\<open>add_turn\<close>, numbered 1, 2, ... up to \<^verbatim>\<open>turn_counter\<close>. The whole list is
  numbered 1, 2, ... up to its length, strictly increasing from 1 without a gap, exactly
  when it holds turns of one source only (\<^verbatim>\<open>turn_counter\<close> is 0 or the length of the
  list); this is so in every session in which no \<^verbatim>\<open>add_turn\<close> follows a reconciliation.
  \<^verbatim>\<open>add_turn\<close> only appends. Turn backfill, run on a state without turns and any message
  history, gives one turn for each message with content whose role is \<^verbatim>\<open>user\<close> (as
  \<^verbatim>\<open>caller\<close>) or \<^verbatim>\<open>assistant\<close> (as \<^verbatim>\<open>agent\<close>), in the order of the history, and none for
  any other message; run on a state that has turns, it leaves them as they are.
\<close>

theorem turn_numbers_by_source:
  assumes live: "\<forall>pce gs msgs. Reconcile pce gs msgs \<notin> set live"
    and post: "\<forall>r c e. AddTurn r c e \<notin> set post"
  shows "(0 \<le> turn_counter (fst (run_session fmt dumps steps (CallState sid number dir ct cn))) \<and>
          turn_counter (fst (run_session fmt dumps steps (CallState sid number dir ct cn))) \<le>
            int (length (turns (fst (run_session fmt dumps steps (CallState sid number dir ct cn))))) \<and>
          map turnNumber (turns (fst (run_session fmt dumps steps (CallState sid number dir ct cn)))) =
            [1 .. int (length (turns (fst (run_session fmt dumps steps (CallState sid number dir ct cn))))) -
                  turn_counter (fst (run_session fmt dumps steps (CallState sid number dir ct cn)))] @
            [1 .. turn_counter (fst (run_session fmt dumps steps (CallState sid number dir ct cn)))]) \<and>
         ((map turnNumber (turns (fst (run_session fmt dumps steps (CallState sid number dir ct cn)))) =
             [1 .. int (length (turns (fst (run_session fmt dumps steps (CallState sid number dir ct cn)))))]) =
          (turn_counter (fst (run_session fmt dumps steps (CallState sid number dir ct cn))) = 0 \<or>
           turn_counter (fst (run_session fmt dumps steps (CallState sid number dir ct cn))) =
             int (length (turns (fst (run_session fmt dumps steps (CallState sid number dir ct cn))))))) \<and>
         map turnNumber (turns (fst (run_session fmt dumps (live @ post)
            (CallState sid number dir ct cn)))) =
           [1 .. int (length (turns (fst (run_session fmt dumps (live @ post)
              (CallState sid number dir ct cn)))))] \<and>
         turns (add_turn dumps s r c e) =
           turns s @ [\<lparr>role = r, content = c, turnNumber = turn_counter s + 1,
                       extractedData = (if truthy e then Some (dumps e) else None)\<rparr>] \<and>
         (turns s = [] \<longrightarrow>
            map turnNumber (turns (fst (extract_from_context fmt pce gs msgs s))) =
              [1 .. int (length (turns (fst (extract_from_context fmt pce gs msgs s))))] \<and>
            map (\<lambda>t. (role t, content t)) (turns (fst (extract_from_context fmt pce gs msgs s))) =
              concat (map spoken msgs)) \<and>
         (turns s \<noteq> [] \<longrightarrow>
            turns (fst (extract_from_context fmt pce gs msgs s)) = turns s)"
proof -
  let ?s0 = "CallState sid number dir ct cn"
  let ?f = "fst (run_session fmt dumps steps ?s0)"
  have init: "turn_counter ?s0 = int (length (turns ?s0))"
    "map turnNumber (turns ?s0) = [1 .. int (length (turns ?s0))]"
    by (simp_all add: CallState_def)
  have i0: "0 \<le> turn_counter ?s0" and i1: "turn_counter ?s0 \<le> int (length (turns ?s0))"
    and i2: "map turnNumber (turns ?s0) =
       [1 .. int (length (turns ?s0)) - turn_counter ?s0] @ [1 .. turn_counter ?s0]"
    by (simp_all add: CallState_def)
  from run_session_numbering [OF i0 i1 i2, of fmt dumps steps]
  have g0: "0 \<le> turn_counter ?f" and g1: "turn_counter ?f \<le> int (length (turns ?f))"
    and g2: "map turnNumber (turns ?f) =
       [1 .. int (length (turns ?f)) - turn_counter ?f] @ [1 .. turn_counter ?f]"
    by blast+
  have g3: "(map turnNumber (turns ?f) = [1 .. int (length (turns ?f))]) =
      (turn_counter ?f = 0 \<or> turn_counter ?f = int (length (turns ?f)))"
    unfolding g2 using g0 g1 by (rule upto_restart_iff)
  from run_session_live [OF live init, of fmt dumps]
  have mid: "map turnNumber (turns (fst (run_session fmt dumps live ?s0))) =
      [1 .. int (length (turns (fst (run_session fmt dumps live ?s0))))]"
    by simp
  have a: "map turnNumber (turns (fst (run_session fmt dumps (live @ post) ?s0))) =
      [1 .. int (length (turns (fst (run_session fmt dumps (live @ post) ?s0))))]"
    unfolding run_session_append by (rule run_session_post [OF post mid])
  have b: "turns (add_turn dumps s r c e) =
           turns s @ [\<lparr>role = r, content = c, turnNumber = turn_counter s + 1,
                       extractedData = (if truthy e then Some (dumps e) else None)\<rparr>]"
    by (rule add_turn_frame)
  have c: "map turnNumber (turns (fst (extract_from_context fmt pce gs msgs s))) =
              [1 .. int (length (turns (fst (extract_from_context fmt pce gs msgs s))))] \<and>
            map (\<lambda>t. (role t, content t)) (turns (fst (extract_from_context fmt pce gs msgs s))) =
              concat (map spoken msgs)"
    if "turns s = []"
    using that backfill_numbers [of msgs 0] backfill_speakers [of msgs 0]
    by (simp add: extract_turns turn_backfill_def)
  have d: "turns (fst (extract_from_context fmt pce gs msgs s)) = turns s"
    if "turns s \<noteq> []"
    using that by (simp add: extract_turns turn_backfill_def)
  from g0 g1 g2 g3 a b c d show ?thesis by blast
qed

theorem turn_numbers_by_source_witness:
  "(\<forall>pce gs msgs. Reconcile pce gs msgs \<notin>
      set [ClassifyCall [(''call_type'', JStr ''service'')],
           AddTurn ''caller'' (JStr ''My furnace is out'') JNull,
           AddTurn ''agent'' (JStr ''How old is it?'') JNull]) \<and>
   (\<forall>r c e. AddTurn r c e \<notin>
      set [Reconcile (\<lambda>tr ctype. JNull) (\<lambda>tr. JNull) [], Save None (\<lambda>d. Inr (200, None))]) \<and>
   map turnNumber (turns (fst (run_session (\<lambda>v. []) (\<lambda>v. [])
      ([ClassifyCall [(''call_type'', JStr ''service'')],
        AddTurn ''caller'' (JStr ''My furnace is out'') JNull,
        AddTurn ''agent'' (JStr ''How old is it?'') JNull] @
       [Reconcile (\<lambda>tr ctype. JNull) (\<lambda>tr. JNull) [], Save None (\<lambda>d. Inr (200, None))])
      (CallState ''CA3'' ''+16045550102'' ''inbound'' JNull JNull)))) = [1, 2] \<and>
   turns (CallState ''CA3'' ''+16045550102'' ''inbound'' JNull JNull) = [] \<and>
   map turnNumber (turns (fst (extract_from_context (\<lambda>v. []) (\<lambda>tr ctype. JNull) (\<lambda>tr. JNull)
      [[(''role'', JStr ''system''), (''content'', JStr ''You are a phone agent'')],
       [(''role'', JStr ''user''), (''content'', JStr ''My furnace is out'')],
       [(''role'', JStr ''assistant''), (''content'', JNull)],
       [(''role'', JStr ''tool''), (''content'', JStr ''Call classified as service'')],
       [(''role'', JStr ''assistant''), (''content'', JStr ''How old is it?'')]]
      (CallState ''CA3'' ''+16045550102'' ''inbound'' JNull JNull)))) = [1, 2] \<and>
   map (\<lambda>t. (role t, content t)) (turns (fst (extract_from_context (\<lambda>v. []) (\<lambda>tr ctype. JNull) (\<lambda>tr. JNull)
      [[(''role'', JStr ''system''), (''content'', JStr ''You are a phone agent'')],
       [(''role'', JStr ''user''), (''content'', JStr ''My furnace is out'')],
       [(''role'', JStr ''assistant''), (''content'', JNull)],
       [(''role'', JStr ''tool''), (''content'', JStr ''Call classified as service'')],
       [(''role'', JStr ''assistant''), (''content'', JStr ''How old is it?'')]]
      (CallState ''CA3'' ''+16045550102'' ''inbound'' JNull JNull)))) =
     [(''caller'', JStr ''My furnace is out''), (''agent'', JStr ''How old is it?'')]"
proof -
  let ?live = "[ClassifyCall [(''call_type'', JStr ''service'')],
           AddTurn ''caller'' (JStr ''My furnace is out'') JNull,
           AddTurn ''agent'' (JStr ''How old is it?'') JNull]"
  let ?post = "[Reconcile (\<lambda>tr ctype. JNull) (\<lambda>tr. JNull) [], Save None (\<lambda>d. Inr (200, None))]"
  let ?s0 = "CallState ''CA3'' ''+16045550102'' ''inbound'' JNull JNull"
  let ?msgs = "[[(''role'', JStr ''system''), (''content'', JStr ''You are a phone agent'')],
       [(''role'', JStr ''user''), (''content'', JStr ''My furnace is out'')],
       [(''role'', JStr ''assistant''), (''content'', JNull)],
       [(''role'', JStr ''tool''), (''content'', JStr ''Call classified as service'')],
       [(''role'', JStr ''assistant''), (''content'', JStr ''How old is it?'')]]"
  let ?r = "fst (run_session (\<lambda>v. []) (\<lambda>v. []) (?live @ ?post) ?s0)"
  let ?e = "fst (extract_from_context (\<lambda>v. []) (\<lambda>tr ctype. JNull) (\<lambda>tr. JNull) ?msgs ?s0)"
  have h1: "\<forall>pce gs msgs. Reconcile pce gs msgs \<notin> set ?live"
    by simp
  have h2: "\<forall>r c e. AddTurn r c e \<notin> set ?post"
    by simp
  have h3: "turns ?s0 = []"
    by (simp add: CallState_def)
  note t = turn_numbers_by_source [OF h1 h2, where steps = "[]" and fmt = "\<lambda>v. []" and dumps = "\<lambda>v. []"
      and sid = "''CA3''" and number = "''+16045550102''" and dir = "''inbound''"
      and ct = JNull and cn = JNull and s = ?s0 and pce = "\<lambda>tr ctype. JNull"
      and gs = "\<lambda>tr. JNull" and msgs = ?msgs and r = "[]" and c = JNull and e = JNull]
  from t have a: "map turnNumber (turns ?r) = [1 .. int (length (turns ?r))]"
    by blast
  from t h3 have b: "map turnNumber (turns ?e) = [1 .. int (length (turns ?e))]"
    and c: "map (\<lambda>t. (role t, content t)) (turns ?e) = concat (map spoken ?msgs)"
    by blast+
  have c': "map (\<lambda>t. (role t, content t)) (turns ?e) =
      [(''caller'', JStr ''My furnace is out''), (''agent'', JStr ''How old is it?'')]"
    unfolding c by (simp add: spoken_def dict_get_def)
  have "length (map (\<lambda>t. (role t, content t)) (turns ?e)) = 2"
    unfolding c' by simp
  then have le: "length (turns ?e) = 2"
    by simp
  have two: "[1 .. (2::int)] = [1, 2]"
    by (simp add: upto.simps)
  have b': "map turnNumber (turns ?e) = [1, 2]"
    using b two unfolding le by simp
  have "length (turns ?r) = 2"
    by (simp add: run_session_Cons run_step_fst extract_turns save_frame turn_backfill_def
        add_turn_frame classify_frame CallState_def
        del: run_session.simps(2) run_step.simps)
  then have a': "map turnNumber (turns ?r) = [1, 2]"
    using a two by simp
  from h1 h2 h3 a' b' c' show ?thesis by blast
qed

text \<open>
  Claim C8 as stated (the turn numbers of every call state instance are strictly
  increasing from 1 without gaps) fails when a turn is appended by \<^verbatim>\<open>add_turn\<close> after turn
  backfill has reconstructed one: backfill leaves \<^verbatim>\<open>turn_counter\<close> at 0, so the appended
  turn is numbered 1 again.
\<close>

theorem turn_numbers_restart_counterexample:
  "map turnNumber (turns (add_turn (\<lambda>v. [])
      (fst (extract_from_context (\<lambda>v. []) (\<lambda>tr ctype. JNull) (\<lambda>tr. JNull) one_message
         (CallState ''CA3'' ''+16045550102'' ''inbound'' JNull JNull)))
      ''agent'' (JStr ''How can I help?'') JNull)) = [1, 1] \<and>
   turn_counter (fst (extract_from_context (\<lambda>v. []) (\<lambda>tr ctype. JNull) (\<lambda>tr. JNull) one_message
         (CallState ''CA3'' ''+16045550102'' ''inbound'' JNull JNull))) = 0"
  by (simp add: add_turn_frame extract_turns turn_backfill_def one_message_def CallState_def
      dict_get_def Let_def)

section \<open>Persistence\<close>

text \<open>
  Claim C3. \<^verbatim>\<open>save_call_data\<close> does nothing when the save guard is set or the turn list
  is empty: the state is the one it was given and no request is issued. Otherwise it
  issues exactly one request, built from the state with the guard set, and leaves that
  state whatever the request does (a status other than 200 and an exception included),
  so the guard is set without regard to the outcome of the delivery. A second invocation
  right after any invocation issues no request and changes nothing, whatever the first
  request did. Over a whole session, any sequence of handlers, \<^verbatim>\<open>add_turn\<close> calls,
  reconciliations and saves from any state, at most one request is issued.
\<close>

theorem save_at_most_once:
  "(saved s \<or> turns s = [] \<longrightarrow>
      fst (save_call_data dumps api_url post s) = s \<and>
      fst (snd (save_call_data dumps api_url post s)) = []) \<and>
   (\<not> saved s \<and> turns s \<noteq> [] \<longrightarrow>
      fst (save_call_data dumps api_url post s) = s\<lparr>saved := True\<rparr> \<and>
      length (fst (snd (save_call_data dumps api_url post s))) = 1 \<and>
      map body (fst (snd (save_call_data dumps api_url post s))) =
        [to_payload dumps (s\<lparr>saved := True\<rparr>)]) \<and>
   (fst (snd (save_call_data dumps api_url post s)) \<noteq> [] \<longrightarrow>
      saved (fst (save_call_data dumps api_url post s))) \<and>
   fst (save_call_data dumps' api_url' post' (fst (save_call_data dumps api_url post s))) =
     fst (save_call_data dumps api_url post s) \<and>
   fst (snd (save_call_data dumps' api_url' post' (fst (save_call_data dumps api_url post s)))) = [] \<and>
   length (snd (run_session fmt dumps steps s)) \<le> 1"
proof -
  have "fst (save_call_data dumps' api_url' post' (fst (save_call_data dumps api_url post s))) =
     fst (save_call_data dumps api_url post s) \<and>
   fst (snd (save_call_data dumps' api_url' post' (fst (save_call_data dumps api_url post s)))) = []"
    by (simp add: save_call_data_def Let_def)
  moreover have "saved s \<or> turns s = [] \<longrightarrow>
      fst (save_call_data dumps api_url post s) = s \<and>
      fst (snd (save_call_data dumps api_url post s)) = []"
    by (simp add: save_call_data_def Let_def)
  moreover have "\<not> saved s \<and> turns s \<noteq> [] \<longrightarrow>
      fst (save_call_data dumps api_url post s) = s\<lparr>saved := True\<rparr> \<and>
      length (fst (snd (save_call_data dumps api_url post s))) = 1 \<and>
      map body (fst (snd (save_call_data dumps api_url post s))) =
        [to_payload dumps (s\<lparr>saved := True\<rparr>)]"
    by (simp add: save_call_data_def Let_def)
  moreover have "fst (snd (save_call_data dumps api_url post s)) \<noteq> [] \<longrightarrow>
      saved (fst (save_call_data dumps api_url post s))"
    by (simp add: save_call_data_def Let_def)
  ultimately show ?thesis
    using run_session_deliveries [of fmt dumps steps s] by blast
qed

theorem save_at_most_once_witness:
  "\<not> saved (add_turn (\<lambda>v. []) demo_state ''caller'' (JStr ''My furnace is out'') JNull) \<and>
   turns (add_turn (\<lambda>v. []) demo_state ''caller'' (JStr ''My furnace is out'') JNull) \<noteq> [] \<and>
   saved demo_state = False \<and> turns demo_state = [] \<and>
   fst (save_call_data (\<lambda>v. []) None (\<lambda>d. Inl RequestError) demo_state) = demo_state \<and>
   fst (save_call_data (\<lambda>v. []) None (\<lambda>d. Inl RequestError)
      (add_turn (\<lambda>v. []) demo_state ''caller'' (JStr ''My furnace is out'') JNull)) =
     (add_turn (\<lambda>v. []) demo_state ''caller'' (JStr ''My furnace is out'') JNull)\<lparr>saved := True\<rparr> \<and>
   length (fst (snd (save_call_data (\<lambda>v. []) None (\<lambda>d. Inl RequestError)
      (add_turn (\<lambda>v. []) demo_state ''caller'' (JStr ''My furnace is out'') JNull)))) = 1 \<and>
   fst (snd (save_call_data (\<lambda>v. []) None (\<lambda>d. Inr (200, None))
      (fst (save_call_data (\<lambda>v. []) None (\<lambda>d. Inl RequestError)
         (add_turn (\<lambda>v. []) demo_state ''caller'' (JStr ''My furnace is out'') JNull))))) = [] \<and>
   length (snd (run_session (\<lambda>v. []) (\<lambda>v. [])
      [AddTurn ''caller'' (JStr ''My furnace is out'') JNull,
       Save None (\<lambda>d. Inl RequestError), Save None (\<lambda>d. Inr (200, None))] demo_state)) \<le> 1"
proof -
  let ?s = "add_turn (\<lambda>v. []) demo_state ''caller'' (JStr ''My furnace is out'') JNull"
  have h1: "\<not> saved ?s"
    by (simp add: add_turn_def demo_state_def CallState_def Let_def)
  have h2: "turns ?s \<noteq> []"
    by (simp add: add_turn_def Let_def)
  have h3: "saved demo_state = False"
    by (simp add: demo_state_def CallState_def)
  have h4: "turns demo_state = []"
    by (simp add: demo_state_def CallState_def)
  note t1 = save_at_most_once [where s = ?s and dumps = "\<lambda>v. []" and api_url = None
      and post = "\<lambda>d. Inl RequestError" and dumps' = "\<lambda>v. []" and api_url' = None
      and post' = "\<lambda>d. Inr (200, None)" and fmt = "\<lambda>v. []"
      and steps = "[]"]
  note t2 = save_at_most_once [where s = demo_state and dumps = "\<lambda>v. []" and api_url = None
      and post = "\<lambda>d. Inl RequestError" and dumps' = "\<lambda>v. []" and api_url' = None
      and post' = "\<lambda>d. Inr (200, None)" and fmt = "\<lambda>v. []"
      and steps = "[AddTurn ''caller'' (JStr ''My furnace is out'') JNull,
       Save None (\<lambda>d. Inl RequestError), Save None (\<lambda>d. Inr (200, None))]"]
  from t1 h1 h2 have a:
    "fst (save_call_data (\<lambda>v. []) None (\<lambda>d. Inl RequestError) ?s) = ?s\<lparr>saved := True\<rparr>"
    "length (fst (snd (save_call_data (\<lambda>v. []) None (\<lambda>d. Inl RequestError) ?s))) = 1"
    by blast+
  from t1 have b:
    "fst (snd (save_call_data (\<lambda>v. []) None (\<lambda>d. Inr (200, None))
      (fst (save_call_data (\<lambda>v. []) None (\<lambda>d. Inl RequestError) ?s)))) = []"
    by blast
  from t2 h4 have c:
    "fst (save_call_data (\<lambda>v. []) None (\<lambda>d. Inl RequestError) demo_state) = demo_state"
    by blast
  from t2 have d: "length (snd (run_session (\<lambda>v. []) (\<lambda>v. [])
      [AddTurn ''caller'' (JStr ''My furnace is out'') JNull,
       Save None (\<lambda>d. Inl RequestError), Save None (\<lambda>d. Inr (200, None))] demo_state)) \<le> 1"
    by blast
  from h1 h2 h3 h4 a b c d show ?thesis by blast
qed

section \<open>Post-call extraction\<close>

text \<open>
  Claim C9. When the provider answers with a fenced block, that is optional white space,
  three backticks, an info string without a newline (possibly empty), a newline, the
  payload, three backticks and optional white space, the text handed to the JSON parser
  is the payload with the white space around it stripped, and \<^verbatim>\<open>post_call_extraction\<close>
  returns what the parser yields for it; the same holds for a payload without a newline
  set directly between two fences. When the request raises, or the parser raises on the
  cleaned text, or anything else in the body raises, \<^verbatim>\<open>post_call_extraction\<close> returns
  \<^verbatim>\<open>None\<close>; it has no other result than \<^verbatim>\<open>None\<close> or the parsed value, so no exception
  leaves it.
\<close>

theorem extraction_strips_fences_and_catches:
  "((\<forall>c \<in> set w1. is_space c) \<and> (\<forall>c \<in> set w2. is_space c) \<and> newline \<notin> set lang \<and>
     fields_hint ctype = Inr hint \<and>
     request hint tr = Inr (Some (w1 @ ''```'' @ lang @ [newline] @ p @ ''```'' @ w2)) \<longrightarrow>
       post_call_extraction request loads tr ctype =
         (case loads (strip p) of Inl e \<Rightarrow> JNull | Inr v \<Rightarrow> v)) \<and>
   ((\<forall>c \<in> set w1. is_space c) \<and> (\<forall>c \<in> set w2. is_space c) \<and> newline \<notin> set p \<and>
     fields_hint ctype = Inr hint \<and>
     request hint tr = Inr (Some (w1 @ ''```'' @ p @ ''```'' @ w2)) \<longrightarrow>
       post_call_extraction request loads tr ctype =
         (case loads (strip p) of Inl e \<Rightarrow> JNull | Inr v \<Rightarrow> v)) \<and>
   (fields_hint ctype = Inr hint \<and> request hint tr = Inl e \<longrightarrow>
       post_call_extraction request loads tr ctype = JNull) \<and>
   (fields_hint ctype = Inr hint \<and> request hint tr = Inr (Some raw) \<and>
     loads (strip_fences raw) = Inl e \<longrightarrow>
       post_call_extraction request loads tr ctype = JNull) \<and>
   (post_call_extraction_body request loads tr ctype = Inl e \<longrightarrow>
       post_call_extraction request loads tr ctype = JNull) \<and>
   (post_call_extraction_body request loads tr ctype = Inr v \<longrightarrow>
       post_call_extraction request loads tr ctype = v)"
proof -
  have a: "post_call_extraction request loads tr ctype =
         (case loads (strip p) of Inl e \<Rightarrow> JNull | Inr v \<Rightarrow> v)"
    if "\<forall>c \<in> set w1. is_space c" "\<forall>c \<in> set w2. is_space c" "newline \<notin> set lang"
      "fields_hint ctype = Inr hint"
      "request hint tr = Inr (Some (w1 @ ''```'' @ lang @ [newline] @ p @ ''```'' @ w2))"
    using that(4,5) strip_fences_block [OF that(1,2,3), of p]
    by (simp add: post_call_extraction_def post_call_extraction_body_def)
  have b: "post_call_extraction request loads tr ctype =
         (case loads (strip p) of Inl e \<Rightarrow> JNull | Inr v \<Rightarrow> v)"
    if "\<forall>c \<in> set w1. is_space c" "\<forall>c \<in> set w2. is_space c" "newline \<notin> set p"
      "fields_hint ctype = Inr hint"
      "request hint tr = Inr (Some (w1 @ ''```'' @ p @ ''```'' @ w2))"
    using that(4,5) strip_fences_inline [OF that(1,2,3)]
    by (simp add: post_call_extraction_def post_call_extraction_body_def)
  have c: "post_call_extraction request loads tr ctype = JNull"
    if "fields_hint ctype = Inr hint" "request hint tr = Inl e"
    using that by (simp add: post_call_extraction_def post_call_extraction_body_def)
  have d: "post_call_extraction request loads tr ctype = JNull"
    if "fields_hint ctype = Inr hint" "request hint tr = Inr (Some raw)"
      "loads (strip_fences raw) = Inl e"
    using that by (simp add: post_call_extraction_def post_call_extraction_body_def)
  have e: "post_call_extraction request loads tr ctype = JNull"
    if "post_call_extraction_body request loads tr ctype = Inl e"
    using that by (simp add: post_call_extraction_def)
  have f: "post_call_extraction request loads tr ctype = v"
    if "post_call_extraction_body request loads tr ctype = Inr v"
    using that by (simp add: post_call_extraction_def)
  from a b c d e f show ?thesis by blast
qed

theorem extraction_strips_fences_and_catches_witness:
  "newline \<notin> set ''json'' \<and>
   fields_hint (JStr ''unknown'') = Inr [] \<and>
   post_call_extraction
     (\<lambda>hint tr. Inr (Some (''```'' @ ''json'' @ [newline] @ (''[1]'' @ [newline]) @ ''```'' @ [newline])))
     (\<lambda>t. if t = ''[1]'' then Inr (JArr [JInt 1]) else Inl JSONDecodeError)
     ''Caller: hello'' (JStr ''unknown'') = JArr [JInt 1] \<and>
   post_call_extraction (\<lambda>hint tr. Inl RequestError)
     (\<lambda>t. if t = ''[1]'' then Inr (JArr [JInt 1]) else Inl JSONDecodeError)
     ''Caller: hello'' (JStr ''unknown'') = JNull \<and>
   post_call_extraction (\<lambda>hint tr. Inr (Some ''not json''))
     (\<lambda>t. if t = ''[1]'' then Inr (JArr [JInt 1]) else Inl JSONDecodeError)
     ''Caller: hello'' (JStr ''unknown'') = JNull"
proof -
  let ?loads = "\<lambda>t. if t = ''[1]'' then Inr (JArr [JInt 1]) else Inl JSONDecodeError"
  let ?fenced = "\<lambda>hint tr :: string.
      (Inr (Some (''```'' @ ''json'' @ [newline] @ (''[1]'' @ [newline]) @ ''```'' @ [newline]))
        :: py_exn + string option)"
  have h0: "\<forall>c \<in> set ([] :: string). is_space c"
    by simp
  have h1: "\<forall>c \<in> set [newline]. is_space c"
    by (simp add: is_space_def newline_def)
  have h2: "newline \<notin> set ''json''"
    by (simp add: newline_def)
  have h3: "fields_hint (JStr ''unknown'') = Inr []"
    by (simp add: CALL_TYPE_FIELDS_def)
  have h4: "?fenced [] ''Caller: hello'' =
      Inr (Some ([] @ ''```'' @ ''json'' @ [newline] @ (''[1]'' @ [newline]) @ ''```'' @ [newline]))"
    by simp
  have sp: "strip (''[1]'' @ [newline]) = ''[1]''"
    by (simp add: strip_def is_space_def newline_def)
  note t1 = extraction_strips_fences_and_catches
    [where ?w1.0 = "[]" and ?w2.0 = "[newline]" and lang = "''json''" and ctype = "JStr ''unknown''"
       and hint = "[]" and request = ?fenced and tr = "''Caller: hello''"
       and p = "''[1]'' @ [newline]" and loads = ?loads]
  from t1 h0 h1 h2 h3 h4 have
    "post_call_extraction ?fenced ?loads ''Caller: hello'' (JStr ''unknown'') =
       (case ?loads (strip (''[1]'' @ [newline])) of Inl e \<Rightarrow> JNull | Inr v \<Rightarrow> v)"
    by blast
  then have a: "post_call_extraction ?fenced ?loads ''Caller: hello'' (JStr ''unknown'') =
      JArr [JInt 1]"
    unfolding sp by simp
  note t2 = extraction_strips_fences_and_catches
    [where ctype = "JStr ''unknown''" and hint = "[]" and request = "\<lambda>hint tr. Inl RequestError"
       and tr = "''Caller: hello''" and loads = ?loads and e = RequestError]
  from t2 h3 have b: "post_call_extraction (\<lambda>hint tr. Inl RequestError) ?loads
      ''Caller: hello'' (JStr ''unknown'') = JNull"
    by blast
  have sf: "strip_fences ''not json'' = ''not json''"
    by code_simp
  have h5: "?loads (strip_fences ''not json'') = Inl JSONDecodeError"
    unfolding sf by simp
  note t3 = extraction_strips_fences_and_catches
    [where ctype = "JStr ''unknown''" and hint = "[]"
       and request = "\<lambda>hint tr. Inr (Some ''not json'')"
       and tr = "''Caller: hello''" and loads = ?loads and e = JSONDecodeError
       and raw = "''not json''"]
  from t3 h3 h5 have c: "post_call_extraction (\<lambda>hint tr. Inr (Some ''not json'')) ?loads
      ''Caller: hello'' (JStr ''unknown'') = JNull"
    by blast
  from h2 h3 a b c show ?thesis by blast
qed

section \<open>Reconciliation\<close>

text \<open>
  Claim C4. During reconciliation \<^verbatim>\<open>post_call_extraction\<close> is called exactly when
  \<^verbatim>\<open>intake_data\<close> is false in Python (the empty dict) or is a dict all of whose values are
  the empty string, and the transcript of the turns, after turn backfill, is not empty
  (which is the case exactly when there is a turn); it is then called once, with that
  transcript and the call type (\<^verbatim>\<open>unknown\<close> when there is none). When it is called and
  returns a non-empty dict, \<^verbatim>\<open>intake_data\<close> afterwards is the value of its \<^verbatim>\<open>fields\<close> key
  (the empty dict when the key is absent), whatever \<^verbatim>\<open>intake_data\<close> held before: nothing
  of the earlier mapping is merged in. When it returns \<^verbatim>\<open>None\<close> or another false value,
  \<^verbatim>\<open>intake_data\<close> stays as it was.
\<close>

theorem extraction_runs_iff_intake_empty:
  "filter is_extraction (snd (extract_from_context fmt pce gs msgs s)) =
     (if (\<not> truthy (intake_data s) \<or>
          (\<exists>m. intake_data s = JObj m \<and> (\<forall>kv \<in> set m. snd kv = JStr []))) \<and>
         transcript fmt (turns (turn_backfill msgs s)) \<noteq> []
      then [ExtractionCall (transcript fmt (turns (turn_backfill msgs s)))
              (if truthy (call_type s) then call_type s else JStr ''unknown'')]
      else []) \<and>
   ((transcript fmt (turns (turn_backfill msgs s)) \<noteq> []) = (turns (turn_backfill msgs s) \<noteq> [])) \<and>
   ((\<not> truthy (intake_data s) \<or>
      (\<exists>m. intake_data s = JObj m \<and> (\<forall>kv \<in> set m. snd kv = JStr []))) \<and>
     transcript fmt (turns (turn_backfill msgs s)) \<noteq> [] \<and>
     pce (transcript fmt (turns (turn_backfill msgs s)))
       (if truthy (call_type s) then call_type s else JStr ''unknown'') = JObj x \<and>
     x \<noteq> [] \<longrightarrow>
       intake_data (fst (extract_from_context fmt pce gs msgs s)) =
         dict_get x ''fields'' (JObj [])) \<and>
   (\<not> truthy (pce (transcript fmt (turns (turn_backfill msgs s)))
       (if truthy (call_type s) then call_type s else JStr ''unknown'')) \<longrightarrow>
       intake_data (fst (extract_from_context fmt pce gs msgs s)) = intake_data s)"
proof -
  let ?s1 = "turn_backfill msgs s"
  let ?tr = "transcript fmt (turns ?s1)"
  let ?ct = "if truthy (call_type s) then call_type s else JStr ''unknown''"
  have calls: "filter is_extraction (snd (extract_from_context fmt pce gs msgs s)) =
     (if (\<not> truthy (intake_data s) \<or>
          (\<exists>m. intake_data s = JObj m \<and> (\<forall>kv \<in> set m. snd kv = JStr []))) \<and> ?tr \<noteq> []
      then [ExtractionCall ?tr ?ct] else [])"
    unfolding extract_calls intake_backfill_calls turn_backfill_keeps intake_empty_iff
      transcript_blank
    by (rule refl)
  have tr: "(?tr \<noteq> []) = (turns ?s1 \<noteq> [])"
    by (simp add: transcript_blank)
  have ok: "intake_data (fst (extract_from_context fmt pce gs msgs s)) =
         dict_get x ''fields'' (JObj [])"
    if c: "\<not> truthy (intake_data s) \<or>
        (\<exists>m. intake_data s = JObj m \<and> (\<forall>kv \<in> set m. snd kv = JStr []))"
      and t: "?tr \<noteq> []" and p: "pce ?tr ?ct = JObj x" and x: "x \<noteq> []"
  proof -
    have e: "intake_empty (intake_data s) = Inr True"
      using c by (simp only: intake_empty_iff)
    have n: "turns ?s1 \<noteq> []"
      using t by (simp add: transcript_blank)
    from extract_success
      [where s = s and msgs = msgs and pce = pce and fmt = fmt and x = x and gs = gs,
       OF e n p x]
    obtain sm where
      eq: "fst (extract_from_context fmt pce gs msgs s) = (apply_extracted ?s1 x)\<lparr>summary := sm\<rparr>"
      by blast
    show ?thesis
      unfolding eq by (simp add: apply_extracted_contact)
  qed
  have none: "intake_data (fst (extract_from_context fmt pce gs msgs s)) = intake_data s"
    if "\<not> truthy (pce ?tr ?ct)"
    using that by (rule extract_no_result)
  from calls tr ok none show ?thesis by blast
qed

theorem extraction_runs_iff_intake_empty_witness:
  "intake_data seeded_state = JObj [(''buildingType'', JStr []), (''location'', JStr [])] \<and>
   found \<noteq> [] \<and>
   filter is_extraction (snd (extract_from_context (\<lambda>v. []) (\<lambda>tr ctype. JObj found)
       (\<lambda>tr. JNull) one_message seeded_state)) =
     [ExtractionCall ''Caller: This is Bob, we need a heat pump'' (JStr ''design'')] \<and>
   intake_data (fst (extract_from_context (\<lambda>v. []) (\<lambda>tr ctype. JObj found)
       (\<lambda>tr. JNull) one_message seeded_state)) = JObj [(''buildingType'', JStr ''office'')]"
proof -
  let ?pce = "\<lambda>(tr :: string) (ctype :: json). JObj found"
  have h0: "intake_data seeded_state = JObj [(''buildingType'', JStr []), (''location'', JStr [])]"
    by (simp add: seeded_state_def)
  have h1: "\<not> truthy (intake_data seeded_state) \<or>
      (\<exists>m. intake_data seeded_state = JObj m \<and> (\<forall>kv \<in> set m. snd kv = JStr []))"
    unfolding h0 by simp
  have tr: "transcript (\<lambda>v. []) (turns (turn_backfill one_message seeded_state)) =
      ''Caller: This is Bob, we need a heat pump''"
    by (simp add: turn_backfill_def one_message_def seeded_state_def CallState_def dict_get_def
        transcript_def transcript_line_def Let_def)
  have ct: "(if truthy (call_type seeded_state) then call_type seeded_state else JStr ''unknown'') =
      JStr ''design''"
    by (simp add: seeded_state_def CallState_def)
  have h2: "transcript (\<lambda>v. []) (turns (turn_backfill one_message seeded_state)) \<noteq> []"
    unfolding tr by simp
  have h3: "?pce (transcript (\<lambda>v. []) (turns (turn_backfill one_message seeded_state)))
      (if truthy (call_type seeded_state) then call_type seeded_state else JStr ''unknown'') =
      JObj found"
    by simp
  have h4: "found \<noteq> []"
    by (simp add: found_def)
  note t = extraction_runs_iff_intake_empty
    [where s = seeded_state and msgs = one_message and fmt = "\<lambda>v. []" and pce = ?pce
       and gs = "\<lambda>tr. JNull" and x = found]
  from t h1 h2 have a:
    "filter is_extraction (snd (extract_from_context (\<lambda>v. []) ?pce (\<lambda>tr. JNull)
       one_message seeded_state)) =
     [ExtractionCall (transcript (\<lambda>v. []) (turns (turn_backfill one_message seeded_state)))
        (if truthy (call_type seeded_state) then call_type seeded_state else JStr ''unknown'')]"
    by presburger
  from t h1 h2 h3 h4 have b:
    "intake_data (fst (extract_from_context (\<lambda>v. []) ?pce (\<lambda>tr. JNull)
       one_message seeded_state)) = dict_get found ''fields'' (JObj [])"
    by blast
  have b': "dict_get found ''fields'' (JObj []) = JObj [(''buildingType'', JStr ''office'')]"
    by (simp add: found_def dict_get_def)
  from h0 h4 a b show ?thesis
    unfolding tr ct b' by blast
qed

text \<open>
  Claim C2, as amended. When post-call extraction is called and returns a non-empty dict,
  caller name, caller email and caller address are each set to the extracted value
  whenever that value is true in Python (for a string: non-empty), whether or not a value
  was stored before, and are left as they were when the extracted value is absent, null
  or empty; so extraction never clears one of them, but it does replace a stored one.
  Only the call type is backfilled on condition that none is stored: it is taken from
  the result when the stored one is false or \<^verbatim>\<open>unknown\<close>, and kept otherwise.
\<close>

theorem extraction_overwrites_contact:
  assumes e: "intake_empty (intake_data s) = Inr True"
    and n: "turns (turn_backfill msgs s) \<noteq> []"
    and p: "pce (transcript fmt (turns (turn_backfill msgs s)))
              (if truthy (call_type s) then call_type s else JStr ''unknown'') = JObj x"
    and x: "x \<noteq> []"
  shows "caller_name (fst (extract_from_context fmt pce gs msgs s)) =
           (if truthy (dict_get x ''callerName'' JNull)
            then dict_get x ''callerName'' JNull else caller_name s) \<and>
         caller_email (fst (extract_from_context fmt pce gs msgs s)) =
           (if truthy (dict_get x ''callerEmail'' JNull)
            then dict_get x ''callerEmail'' JNull else caller_email s) \<and>
         caller_address (fst (extract_from_context fmt pce gs msgs s)) =
           (if truthy (dict_get x ''callerAddress'' JNull)
            then dict_get x ''callerAddress'' JNull else caller_address s) \<and>
         call_type (fst (extract_from_context fmt pce gs msgs s)) =
           (if \<not> truthy (call_type s) \<or> call_type s = JStr ''unknown''
            then dict_get x ''callType'' (call_type s) else call_type s)"
proof -
  from extract_success
      [where s = s and msgs = msgs and pce = pce and fmt = fmt and x = x and gs = gs,
       OF e n p x]
    obtain sm where
    eq: "fst (extract_from_context fmt pce gs msgs s) =
       (apply_extracted (turn_backfill msgs s) x)\<lparr>summary := sm\<rparr>"
    by blast
  show ?thesis
    unfolding eq by (simp add: apply_extracted_contact)
qed

theorem extraction_overwrites_contact_witness:
  "intake_empty (intake_data seeded_state) = Inr True \<and>
   turns (turn_backfill one_message seeded_state) \<noteq> [] \<and>
   found \<noteq> [] \<and>
   caller_name (fst (extract_from_context (\<lambda>v. []) (\<lambda>tr ctype. JObj found) (\<lambda>tr. JNull)
       one_message (seeded_state\<lparr>caller_email := JStr ''ann@example.com''\<rparr>))) = JStr ''Bob'' \<and>
   caller_email (fst (extract_from_context (\<lambda>v. []) (\<lambda>tr ctype. JObj found) (\<lambda>tr. JNull)
       one_message (seeded_state\<lparr>caller_email := JStr ''ann@example.com''\<rparr>))) =
     JStr ''ann@example.com'' \<and>
   call_type (fst (extract_from_context (\<lambda>v. []) (\<lambda>tr ctype. JObj found) (\<lambda>tr. JNull)
       one_message (seeded_state\<lparr>caller_email := JStr ''ann@example.com''\<rparr>))) = JStr ''design''"
proof -
  let ?pce = "\<lambda>(tr :: string) (ctype :: json). JObj found"
  let ?s = "seeded_state\<lparr>caller_email := JStr ''ann@example.com''\<rparr>"
  have e0: "intake_empty (intake_data seeded_state) = Inr True"
    by (simp add: seeded_state_def intake_empty_def)
  have n0: "turns (turn_backfill one_message seeded_state) \<noteq> []"
    by (simp add: turn_backfill_def one_message_def seeded_state_def CallState_def dict_get_def
        Let_def)
  have e: "intake_empty (intake_data ?s) = Inr True"
    using e0 by simp
  have n: "turns (turn_backfill one_message ?s) \<noteq> []"
    by (simp add: turn_backfill_def one_message_def seeded_state_def CallState_def dict_get_def
        Let_def)
  have p: "?pce (transcript (\<lambda>v. []) (turns (turn_backfill one_message ?s)))
      (if truthy (call_type ?s) then call_type ?s else JStr ''unknown'') = JObj found"
    by simp
  have x: "found \<noteq> []"
    by (simp add: found_def)
  note t = extraction_overwrites_contact
    [where s = ?s and msgs = one_message and fmt = "\<lambda>v. []" and pce = ?pce and x = found
       and gs = "\<lambda>tr. JNull", OF e n p x]
  have vals: "dict_get found ''callerName'' JNull = JStr ''Bob''"
    "dict_get found ''callerEmail'' JNull = JNull"
    by (simp_all add: found_def dict_get_def)
  have st: "caller_email ?s = JStr ''ann@example.com''" "call_type ?s = JStr ''design''"
    by (simp_all add: seeded_state_def CallState_def)
  from t have a: "caller_name (fst (extract_from_context (\<lambda>v. []) ?pce (\<lambda>tr. JNull) one_message ?s)) =
      JStr ''Bob''"
    unfolding vals by simp
  from t have b: "caller_email (fst (extract_from_context (\<lambda>v. []) ?pce (\<lambda>tr. JNull) one_message ?s)) =
      JStr ''ann@example.com''"
    unfolding vals st by simp
  from t have c: "call_type (fst (extract_from_context (\<lambda>v. []) ?pce (\<lambda>tr. JNull) one_message ?s)) =
      JStr ''design''"
    unfolding st by simp
  from e0 n0 x a b c show ?thesis by blast
qed

text \<open>
  Claim C2 as stated (a caller name, email or address stored before extraction is never
  overwritten) fails on an outbound call placed for Ann whose transcript makes the
  provider return the name Bob: the stored name Ann is replaced by Bob.
\<close>

theorem extraction_overwrites_contact_counterexample:
  "caller_name seeded_state = JStr ''Ann'' \<and>
   caller_name (fst (extract_from_context (\<lambda>v. []) (\<lambda>tr ctype. JObj found) (\<lambda>tr. JNull)
       one_message seeded_state)) = JStr ''Bob''"
proof -
  let ?pce = "\<lambda>(tr :: string) (ctype :: json). JObj found"
  have e: "intake_empty (intake_data seeded_state) = Inr True"
    by (simp add: seeded_state_def intake_empty_def)
  have n: "turns (turn_backfill one_message seeded_state) \<noteq> []"
    by (simp add: turn_backfill_def one_message_def seeded_state_def CallState_def dict_get_def
        Let_def)
  have p: "?pce (transcript (\<lambda>v. []) (turns (turn_backfill one_message seeded_state)))
      (if truthy (call_type seeded_state) then call_type seeded_state else JStr ''unknown'') =
      JObj found"
    by simp
  have x: "found \<noteq> []"
    by (simp add: found_def)
  from extract_success
      [where s = seeded_state and msgs = one_message and pce = ?pce and fmt = "\<lambda>v. []"
         and x = found and gs = "\<lambda>tr. JNull", OF e n p x]
    obtain sm where
    eq: "fst (extract_from_context (\<lambda>v. []) ?pce (\<lambda>tr. JNull) one_message seeded_state) =
       (apply_extracted (turn_backfill one_message seeded_state) found)\<lparr>summary := sm\<rparr>"
    by blast
  have "caller_name (fst (extract_from_context (\<lambda>v. []) ?pce (\<lambda>tr. JNull)
      one_message seeded_state)) = JStr ''Bob''"
    unfolding eq by (simp add: apply_extracted_contact found_def dict_get_def)
  moreover have "caller_name seeded_state = JStr ''Ann''"
    by (simp add: seeded_state_def CallState_def)
  ultimately show ?thesis by blast
qed

end
